theory Spec2Isabelle
  imports Complex_Main "HOL-Library.Char_ord" "HOL-Library.List_Lexorder"
begin

section \<open>Values shared by the helpers of utils.py\<close>

text \<open>
  The helpers raise Python exceptions; a model returns \<open>Inl\<close> of the exception
  where the source (or the NumPy call it makes) raises.
\<close>

datatype error = ValueError | IndexError

text \<open>
  A NumPy floating-point number. The special values of IEEE arithmetic are kept
  apart, because the helpers test for them (\<open>np.isinf\<close>, \<open>np.isnan\<close>) and
  comparisons with NaN are false. A finite value is a real number: rounding and
  overflow of finite results are not part of the model.
\<close>

datatype npfloat = Num real | PInf | NInf | NaN

fun isinf :: "npfloat \<Rightarrow> bool" where
  "isinf PInf = True"
| "isinf NInf = True"
| "isinf _ = False"

fun isnan :: "npfloat \<Rightarrow> bool" where
  "isnan NaN = True"
| "isnan _ = False"

text \<open>\<open>x < y\<close> on floats: false whenever either side is NaN.\<close>

fun fl_less :: "npfloat \<Rightarrow> npfloat \<Rightarrow> bool" where
  "fl_less NaN _ = False"
| "fl_less _ NaN = False"
| "fl_less (Num x) (Num y) = (x < y)"
| "fl_less (Num x) PInf = True"
| "fl_less (Num x) NInf = False"
| "fl_less PInf _ = False"
| "fl_less NInf NInf = False"
| "fl_less NInf _ = True"

text \<open>\<open>x \<le> y\<close> on floats: false whenever either side is NaN.\<close>

fun fl_le :: "npfloat \<Rightarrow> npfloat \<Rightarrow> bool" where
  "fl_le NaN _ = False"
| "fl_le _ NaN = False"
| "fl_le (Num x) (Num y) = (x \<le> y)"
| "fl_le (Num x) PInf = True"
| "fl_le (Num x) NInf = False"
| "fl_le PInf PInf = True"
| "fl_le PInf _ = False"
| "fl_le NInf _ = True"

text \<open>The sign of a float that is not NaN, as \<open>-1\<close>, \<open>0\<close> or \<open>1\<close>.\<close>

fun fl_sgn :: "npfloat \<Rightarrow> int" where
  "fl_sgn (Num x) = (if x < 0 then - 1 else if x = 0 then 0 else 1)"
| "fl_sgn PInf = 1"
| "fl_sgn NInf = - 1"
| "fl_sgn NaN = 0"

text \<open>Multiplication: NaN is absorbing, and infinity times zero is NaN.\<close>

fun fl_mul :: "npfloat \<Rightarrow> npfloat \<Rightarrow> npfloat" where
  "fl_mul NaN _ = NaN"
| "fl_mul _ NaN = NaN"
| "fl_mul (Num x) (Num y) = Num (x * y)"
| "fl_mul a b =
     (if fl_sgn a * fl_sgn b = 0 then NaN
      else if fl_sgn a * fl_sgn b > 0 then PInf else NInf)"

text \<open>Addition: NaN is absorbing, and the sum of opposite infinities is NaN.\<close>

fun fl_add :: "npfloat \<Rightarrow> npfloat \<Rightarrow> npfloat" where
  "fl_add NaN _ = NaN"
| "fl_add _ NaN = NaN"
| "fl_add (Num x) (Num y) = Num (x + y)"
| "fl_add PInf NInf = NaN"
| "fl_add NInf PInf = NaN"
| "fl_add PInf _ = PInf"
| "fl_add _ PInf = PInf"
| "fl_add NInf _ = NInf"
| "fl_add _ NInf = NInf"

text \<open>Division of a float by a positive Python integer constant.\<close>

fun fl_div_const :: "npfloat \<Rightarrow> nat \<Rightarrow> npfloat" where
  "fl_div_const (Num x) k = Num (x / real k)"
| "fl_div_const v k = v"

text \<open>
  \<open>np.log\<close>: the logarithm of zero is \<open>-inf\<close> and that of a negative number is
  NaN (NumPy warns and does not raise).
\<close>

fun fl_log :: "npfloat \<Rightarrow> npfloat" where
  "fl_log (Num x) = (if 0 < x then Num (ln x) else if x = 0 then NInf else NaN)"
| "fl_log PInf = PInf"
| "fl_log NInf = NaN"
| "fl_log NaN = NaN"

text \<open>
  True division of two integers, as \<open>/\<close> on integer arrays computes it: the
  result is a float, a nonzero number over zero is an infinity and \<open>0/0\<close> is NaN
  (NumPy warns and does not raise).
\<close>

definition true_divide :: "int \<Rightarrow> int \<Rightarrow> npfloat" where
  "true_divide a b =
     (if b = 0 then (if a = 0 then NaN else if 0 < a then PInf else NInf)
      else Num (real_of_int a / real_of_int b))"

section \<open>Class weights\<close>

text \<open>
  \<open>np.bincount(x, minlength=n)\<close>: the number of occurrences of each value
  \<open>0, 1, ...\<close>, in an array as long as the largest value needs and at least
  \<open>n\<close> long. A negative element or a negative \<open>minlength\<close> raises ValueError.
\<close>

definition bincount :: "int list \<Rightarrow> int \<Rightarrow> error + int list" where
  "bincount x minlength =
     (if minlength < 0 \<or> (\<exists>v \<in> set x. v < 0) then Inl ValueError
      else Inr (map (\<lambda>c. int (count_list x (int c)))
                  [0 ..< max (nat minlength) (if x = [] then 0 else nat (Max (set x) + 1))]))"

text \<open>
  \<open>class_weights(labels, mu, numClasses=None)\<close>. \<open>np.max\<close> of an empty array
  raises ValueError. The four array statements after \<open>bincount\<close> act on every
  element alone: divide the total by the count, replace an infinite quotient by
  0, take \<open>mu * log\<close>, and replace what is below 1 by 1.
\<close>

definition class_weights :: "int list \<Rightarrow> npfloat \<Rightarrow> int option \<Rightarrow> error + npfloat list" where
  "class_weights labels mu numClasses =
     (case (case numClasses of
              None \<Rightarrow> (if labels = [] then Inl ValueError else Inr (Max (set labels) + 1))
            | Some n \<Rightarrow> Inr n) of
        Inl e \<Rightarrow> Inl e
      | Inr n \<Rightarrow>
          (case bincount labels n of
             Inl e \<Rightarrow> Inl e
           | Inr counts \<Rightarrow>
               (let w1 = map (true_divide (sum_list counts)) counts;
                    w2 = map (\<lambda>w. if isinf w then Num 0 else w) w1;
                    w3 = map (\<lambda>w. fl_mul mu (fl_log w)) w2;
                    w4 = map (\<lambda>w. if fl_less w (Num 1) then Num 1 else w) w3
                in Inr w4)))"

section \<open>Arrays\<close>

text \<open>
  A NumPy array carries its shape, also when it has no element. A 2-D array is
  its shape and its rows; a 3-D array (a cube: rows, columns, bands) is its
  shape and, for every row and column, the vector along the last axis. The
  well-formedness predicates say that the nested lists have the stated shape,
  which holds of every array NumPy builds.
\<close>

record 'a arr2 =
  nrows :: nat
  ncols :: nat
  rowsof :: "'a list list"

record 'a cube =
  height :: nat
  width :: nat
  depth :: nat
  cells :: "'a list list list"

definition wf_arr2 :: "'a arr2 \<Rightarrow> bool" where
  "wf_arr2 a = (length (rowsof a) = nrows a \<and> list_all (\<lambda>r. length r = ncols a) (rowsof a))"

definition wf_cube :: "'a cube \<Rightarrow> bool" where
  "wf_cube c =
     (length (cells c) = height c \<and>
      list_all (\<lambda>r. length r = width c \<and> list_all (\<lambda>p. length p = depth c) r) (cells c))"

text \<open>
  The slice \<open>a[i:i+ph, j:j+pw]\<close> with non-negative bounds, on the rows of an
  array: a slice stops at the end of the axis, as \<open>take\<close> and \<open>drop\<close> do.
\<close>

definition crop :: "'a list list \<Rightarrow> nat \<Rightarrow> nat \<Rightarrow> nat \<Rightarrow> nat \<Rightarrow> 'a list list" where
  "crop g i j ph pw = map (\<lambda>r. take pw (drop j r)) (take ph (drop i g))"

text \<open>\<open>np.all\<close> of a 2-D boolean array; it is true of an empty array.\<close>

definition np_all :: "bool list list \<Rightarrow> bool" where
  "np_all g = list_all (list_all (\<lambda>b. b)) g"

section \<open>Patch extraction\<close>

text \<open>
  \<open>random.sample(range(n), k)\<close> raises ValueError when \<open>k\<close> is negative or
  larger than \<open>n\<close>, and returns \<open>k\<close> pairwise distinct members of
  \<open>range(n)\<close> otherwise. The list it draws is an argument of the model, and
  \<open>is_sample n k draw\<close> says that \<open>draw\<close> is a possible outcome.
\<close>

definition is_sample :: "nat \<Rightarrow> nat \<Rightarrow> nat list \<Rightarrow> bool" where
  "is_sample n k draw = (length draw = k \<and> distinct draw \<and> list_all (\<lambda>s. s < n) draw)"

definition sample :: "nat \<Rightarrow> int \<Rightarrow> nat list \<Rightarrow> error + nat list" where
  "sample n k draw = (if k < 0 \<or> int n < k then Inl ValueError else Inr draw)"

text \<open>
  \<open>idx[np.array(sample(...))]\<close>: the rows of \<open>idx\<close> at the drawn positions.
  \<open>np.array([])\<close> is an array of floats, and indexing with it raises IndexError,
  as an index out of range does.
\<close>

definition take_rows :: "'a list \<Rightarrow> nat list \<Rightarrow> error + 'a list" where
  "take_rows idx sel =
     (if sel = [] \<or> list_ex (\<lambda>s. length idx \<le> s) sel then Inl IndexError
      else Inr (map (\<lambda>s. idx ! s) sel))"

text \<open>
  The scan of \<open>patch_extractor_with_mask\<close>: the two \<open>for\<close> loops visit the
  anchors \<open>(i, j)\<close> with \<open>i\<close> in \<open>range(0, sh[0] - p)\<close> and \<open>j\<close> in
  \<open>range(0, sh[1] - p)\<close> (an empty range when the bound is not positive, as
  the subtraction on \<open>nat\<close> gives), and mark in \<open>valid\<close> those whose mask
  window is true everywhere.
\<close>

definition window_hits :: "bool arr2 \<Rightarrow> nat \<Rightarrow> nat \<Rightarrow> nat \<Rightarrow> (nat \<times> nat) list" where
  "window_hits msk h w p =
     concat (map (\<lambda>i. map (Pair i)
                          (filter (\<lambda>j. np_all (crop (rowsof msk) i j p p)) [0 ..< w - p]))
                 [0 ..< h - p])"

text \<open>
  \<open>valid\<close> has the shape of the mask, so \<open>valid[i,j] += 1\<close> raises IndexError
  for a marked anchor outside the mask. \<open>np.argwhere(valid > 0)\<close> lists the
  marked anchors in row-major order, the order of the scan.
\<close>

definition valid_anchors_with_mask :: "'a cube \<Rightarrow> bool arr2 \<Rightarrow> nat \<Rightarrow> error + (nat \<times> nat) list" where
  "valid_anchors_with_mask data msk p =
     (let hits = window_hits msk (height data) (width data) p
      in if list_ex (\<lambda>(i, j). nrows msk \<le> i \<or> ncols msk \<le> j) hits then Inl IndexError
         else Inr hits)"

text \<open>
  The stop \<open>s\<close> of a slice \<open>0:s\<close> on an axis of length \<open>n\<close>: a negative stop
  counts from the end, and the result is clipped to the axis.
\<close>

definition slice_stop :: "nat \<Rightarrow> int \<Rightarrow> nat" where
  "slice_stop n s = (if s < 0 then nat (int n + s) else min n (nat s))"

text \<open>
  The anchors of \<open>patch_extractor\<close>: \<open>valid[0:sh[0]-p, 0:sh[1]-p] = 1\<close> marks
  a block of the array, and \<open>np.argwhere\<close> lists it in row-major order.
\<close>

definition valid_anchors :: "'a cube \<Rightarrow> nat \<Rightarrow> (nat \<times> nat) list" where
  "valid_anchors data p =
     concat (map (\<lambda>i. map (Pair i) [0 ..< slice_stop (width data) (int (width data) - int p)])
                 [0 ..< slice_stop (height data) (int (height data) - int p)])"

text \<open>
  \<open>patch_arr[q] = data[i:i+p, j:j+p]\<close>. The slice has
  \<open>min p (height - i)\<close> rows and \<open>min p (width - j)\<close> columns; the assignment
  broadcasts an axis of length 1 and raises ValueError for any other mismatch
  with the \<open>p \<times> p\<close> target.
\<close>

definition broadcast :: "nat \<Rightarrow> 'a list \<Rightarrow> 'a list" where
  "broadcast n xs = (if length xs = n then xs else replicate n (hd xs))"

definition assign_patch :: "'a cube \<Rightarrow> nat \<Rightarrow> nat \<times> nat \<Rightarrow> error + 'a list list list" where
  "assign_patch data p a =
     (case a of (i, j) \<Rightarrow>
        let sr = min p (height data - i); sc = min p (width data - j)
        in if (sr = p \<or> sr = 1) \<and> (sc = p \<or> sc = 1)
           then Inr (broadcast p (map (broadcast p) (crop (cells data) i j p p)))
           else Inl ValueError)"

text \<open>The loop \<open>for i in range(num_patches)\<close> over the sampled anchors.\<close>

fun fill_patches :: "'a cube \<Rightarrow> nat \<Rightarrow> (nat \<times> nat) list \<Rightarrow> error + 'a list list list list" where
  "fill_patches data p [] = Inr []"
| "fill_patches data p (a # as) =
     (case assign_patch data p a of
        Inl e \<Rightarrow> Inl e
      | Inr patch \<Rightarrow>
          (case fill_patches data p as of
             Inl e \<Rightarrow> Inl e
           | Inr rest \<Rightarrow> Inr (patch # rest)))"

text \<open>
  The anchors \<open>patch_extractor_with_mask\<close> samples (the value of \<open>idx\<close> after
  its second assignment). \<open>np.zeros\<close> raises ValueError for a negative
  dimension. \<open>patch_size\<close> is a Python \<open>int\<close>, so both sides of the patch are
  \<open>patch_size\<close> long. The \<open>@jit\<close> decorator is not part of the model.
\<close>

definition sampled_anchors_with_mask ::
  "'a cube \<Rightarrow> bool arr2 \<Rightarrow> int \<Rightarrow> int \<Rightarrow> nat list \<Rightarrow> error + (nat \<times> nat) list" where
  "sampled_anchors_with_mask data msk num_patches patch_size draw =
     (if num_patches < 0 \<or> patch_size < 0 then Inl ValueError
      else case valid_anchors_with_mask data msk (nat patch_size) of
             Inl e \<Rightarrow> Inl e
           | Inr idx \<Rightarrow>
               (case sample (length idx) num_patches draw of
                  Inl e \<Rightarrow> Inl e
                | Inr sel \<Rightarrow> take_rows idx sel))"

definition patch_extractor_with_mask ::
  "'a cube \<Rightarrow> bool arr2 \<Rightarrow> int \<Rightarrow> int \<Rightarrow> nat list \<Rightarrow> error + 'a list list list list" where
  "patch_extractor_with_mask data msk num_patches patch_size draw =
     (case sampled_anchors_with_mask data msk num_patches patch_size draw of
        Inl e \<Rightarrow> Inl e
      | Inr anchors \<Rightarrow> fill_patches data (nat patch_size) anchors)"

text \<open>The same for \<open>patch_extractor\<close>, which has no mask.\<close>

definition sampled_anchors ::
  "'a cube \<Rightarrow> int \<Rightarrow> int \<Rightarrow> nat list \<Rightarrow> error + (nat \<times> nat) list" where
  "sampled_anchors data num_patches patch_size draw =
     (if num_patches < 0 \<or> patch_size < 0 then Inl ValueError
      else case sample (length (valid_anchors data (nat patch_size))) num_patches draw of
             Inl e \<Rightarrow> Inl e
           | Inr sel \<Rightarrow> take_rows (valid_anchors data (nat patch_size)) sel)"

definition patch_extractor ::
  "'a cube \<Rightarrow> int \<Rightarrow> int \<Rightarrow> nat list \<Rightarrow> error + 'a list list list list" where
  "patch_extractor data num_patches patch_size draw =
     (case sampled_anchors data num_patches patch_size draw of
        Inl e \<Rightarrow> Inl e
      | Inr anchors \<Rightarrow> fill_patches data (nat patch_size) anchors)"

section \<open>Band resampling\<close>

text \<open>
  \<open>BandResampler\<close> belongs to the Spectral Python library. The model takes it
  as an argument: from the two band configurations it builds the resampling
  matrix (its attribute \<open>matrix\<close>) or raises.
\<close>

type_synonym resampler =
  "npfloat list \<Rightarrow> npfloat list \<Rightarrow> npfloat list \<Rightarrow> npfloat list \<Rightarrow> error + npfloat arr2"

text \<open>The inner product of a matrix row with a spectrum.\<close>

definition dot :: "npfloat list \<Rightarrow> npfloat list \<Rightarrow> npfloat" where
  "dot xs ys = foldl fl_add (Num 0) (map2 fl_mul xs ys)"

text \<open>
  \<open>m.dot(d.T).T\<close> for a list \<open>d\<close> of spectra: every spectrum is mapped to
  the vector of its inner products with the rows of \<open>m\<close>.
\<close>

definition dot_T :: "npfloat arr2 \<Rightarrow> npfloat list list \<Rightarrow> npfloat list list" where
  "dot_T m d = map (\<lambda>px. map (\<lambda>r. dot r px) (rowsof m)) d"

text \<open>
  \<open>out[mask] = vals\<close> with a boolean mask: the rows of \<open>out\<close> at the true
  positions are replaced, in order, by the rows of \<open>vals\<close>; the other rows
  stay.
\<close>

fun scatter :: "bool list \<Rightarrow> 'a list \<Rightarrow> 'a list \<Rightarrow> 'a list" where
  "scatter (m # ms) (x # out) vals =
     (if m then (case vals of [] \<Rightarrow> x # scatter ms out []
                            | v # vs \<Rightarrow> v # scatter ms out vs)
      else x # scatter ms out vals)"
| "scatter ms out vals = out"

text \<open>
  \<open>out.reshape((h, w, n))\<close> of a 2-D array whose rows are already \<open>n\<close> long
  (or that has no element): row \<open>i\<close> of the cube is the \<open>i\<close>-th run of
  \<open>w\<close> rows.
\<close>

definition reshape3 :: "nat \<Rightarrow> nat \<Rightarrow> 'a list \<Rightarrow> 'a list list" where
  "reshape3 h w xs = map (\<lambda>i. take w (drop (i * w) xs)) [0 ..< h]"

text \<open>
  The last two statements of \<open>band_resample_hsi_cube\<close>, on an \<open>out\<close> of
  shape \<open>(npix, k)\<close>: NaN becomes 0, and the reshape raises ValueError when
  the sizes differ.
\<close>

definition finish_cube :: "nat \<Rightarrow> nat \<Rightarrow> nat \<Rightarrow> nat \<Rightarrow> npfloat list list \<Rightarrow> error + npfloat cube" where
  "finish_cube h w n k out =
     (if h * w * k \<noteq> h * w * n then Inl ValueError
      else Inr \<lparr>height = h, width = w, depth = n,
                cells = reshape3 h w (map (map (\<lambda>v. if isnan v then Num 0 else v)) out)\<rparr>)"

text \<open>
  \<open>band_resample_hsi_cube(data, bands1, bands2, fwhm1, fwhm2, mask=None)\<close>.
  \<open>data.reshape((-1, dataSize[2]))\<close> lists the spectra of the pixels in
  row-major order, and raises ValueError for a cube without bands. Indexing
  with a boolean mask of another length raises IndexError, \<open>dot\<close> raises
  ValueError when the matrix does not have one column for every band, and the
  masked assignment broadcasts a single column and raises ValueError for any
  other width.
\<close>

definition band_resample_hsi_cube ::
  "resampler \<Rightarrow> npfloat cube \<Rightarrow> npfloat list \<Rightarrow> npfloat list \<Rightarrow> npfloat list \<Rightarrow> npfloat list \<Rightarrow>
     bool arr2 option \<Rightarrow> error + npfloat cube" where
  "band_resample_hsi_cube BandResampler data bands1 bands2 fwhm1 fwhm2 msk =
     (case BandResampler bands1 bands2 fwhm1 fwhm2 of
        Inl e \<Rightarrow> Inl e
      | Inr m \<Rightarrow>
          if depth data = 0 then Inl ValueError
          else
            let px = concat (cells data);
                h = height data; w = width data; n = length bands2
            in case msk of
                 None \<Rightarrow>
                   if ncols m \<noteq> depth data then Inl ValueError
                   else finish_cube h w n (nrows m) (dot_T m px)
               | Some mk \<Rightarrow>
                   if length (concat (rowsof mk)) \<noteq> h * w then Inl IndexError
                   else if ncols m \<noteq> depth data then Inl ValueError
                   else if nrows m \<noteq> n \<and> nrows m \<noteq> 1 then Inl ValueError
                   else finish_cube h w n n
                          (scatter (concat (rowsof mk))
                             (replicate (h * w) (replicate n (Num 0)))
                             (map (broadcast n)
                                (dot_T m (map fst (filter snd (zip px (concat (rowsof mk)))))))))"

section \<open>Assembling the Hyperion cube\<close>

text \<open>
  The indices of the calibrated bands:
  \<open>np.hstack([np.arange(7,57), np.arange(76,224)])\<close>.
\<close>

definition calIdx :: "nat list" where
  "calIdx = [7 ..< 57] @ [76 ..< 224]"

text \<open>
  The directory is the list of the paths that \<open>glob\<close> finds, in any order,
  each with the image \<open>gdal.Open(path).ReadAsArray()\<close> reads from it, its
  values already converted to the floating-point \<open>dtype\<close> of the cube.
  \<open>dataFN[k]\<close> raises IndexError beyond the end of the list.
\<close>

type_synonym directory = "(string \<times> npfloat arr2) list"

definition read_band :: "directory \<Rightarrow> nat \<Rightarrow> error + npfloat arr2" where
  "read_band dataFN k = (if k < length dataFN then Inr (snd (dataFN ! k)) else Inl IndexError)"

text \<open>
  \<open>data[:,:,i] = img\<close> for a cube of \<open>h\<close> rows and \<open>w\<close> columns: an axis
  of length 1 is broadcast, any other mismatch raises ValueError.
\<close>

definition fit_band :: "nat \<Rightarrow> nat \<Rightarrow> npfloat arr2 \<Rightarrow> error + npfloat list list" where
  "fit_band h w img =
     (if (nrows img = h \<or> nrows img = 1) \<and> (ncols img = w \<or> ncols img = 1)
      then Inr (broadcast h (map (broadcast w) (rowsof img)))
      else Inl ValueError)"

text \<open>The loop \<open>for i in range(1,198)\<close>, over the indices \<open>calIdx[i]\<close>.\<close>

fun load_bands :: "directory \<Rightarrow> nat \<Rightarrow> nat \<Rightarrow> nat list \<Rightarrow> error + npfloat list list list" where
  "load_bands dataFN h w [] = Inr []"
| "load_bands dataFN h w (k # ks) =
     (case read_band dataFN k of
        Inl e \<Rightarrow> Inl e
      | Inr img \<Rightarrow>
          (case fit_band h w img of
             Inl e \<Rightarrow> Inl e
           | Inr b \<Rightarrow>
               (case load_bands dataFN h w ks of
                  Inl e \<Rightarrow> Inl e
                | Inr bs \<Rightarrow> Inr (b # bs))))"

text \<open>
  The bands \<open>data[:,:,k]\<close> side by side: the cell at row \<open>r\<close> and column
  \<open>c\<close> holds the values of all bands there.
\<close>

definition stack :: "nat \<Rightarrow> nat \<Rightarrow> 'a list list list \<Rightarrow> 'a list list list" where
  "stack h w bands = map (\<lambda>r. map (\<lambda>c. map (\<lambda>b. b ! r ! c) bands) [0 ..< w]) [0 ..< h]"

text \<open>
  \<open>read_hyperion_HSI_data(fileDir, dtype)\<close>, for a floating-point \<open>dtype\<close>.
  \<open>sorted\<close> orders the paths as strings. The first band gives the cube its
  height and width; bands \<open>0:50\<close> are divided by 40 and bands \<open>50:\<close> by 80.
\<close>

definition read_hyperion_HSI_data :: "directory \<Rightarrow> error + npfloat cube" where
  "read_hyperion_HSI_data files =
     (let dataFN = sort_key fst files
      in case read_band dataFN (calIdx ! 0) of
           Inl e \<Rightarrow> Inl e
         | Inr tmp \<Rightarrow>
             (case load_bands dataFN (nrows tmp) (ncols tmp) (tl calIdx) of
                Inl e \<Rightarrow> Inl e
              | Inr bs \<Rightarrow>
                  Inr \<lparr>height = nrows tmp, width = ncols tmp, depth = 198,
                        cells = stack (nrows tmp) (ncols tmp)
                                  (map (\<lambda>(k, b). map (map (\<lambda>v. fl_div_const v (if k < 50 then 40 else 80))) b)
                                       (enumerate 0 (rowsof tmp # bs)))\<rparr>))"

section \<open>Splitting per class\<close>

text \<open>
  \<open>a[m]\<close> with a boolean array \<open>m\<close>: the entries of \<open>a\<close> where \<open>m\<close> is
  true; IndexError when the lengths differ.
\<close>

definition select :: "'a list \<Rightarrow> bool list \<Rightarrow> error + 'a list" where
  "select xs m =
     (if length m \<noteq> length xs then Inl IndexError
      else Inr (map fst (filter snd (zip xs m))))"

text \<open>
  A \<open>train_size\<close> or \<open>test_size\<close> argument: \<open>None\<close>, an absolute number
  or a fraction. \<open>train_test_split_per_class\<close> hands both to
  \<open>train_test_split\<close> unread.
\<close>

datatype size_arg = NoSize | Count int | Fraction real

text \<open>
  \<open>train_test_split\<close> belongs to scikit-learn. It chooses the positions of
  the train and of the test samples from the number of samples and the two size
  arguments alone, and splits all its arrays at these positions. The model takes
  this choice as an argument: \<open>tts train_size test_size i n\<close> is the pair of
  index lists chosen in the \<open>i\<close>-th call, for \<open>n\<close> samples, or the error
  raised. \<open>is_split n (tr, te)\<close> is what every choice satisfies: no position
  is chosen twice and all lie in \<open>range(n)\<close>. A choice need not use every
  position.
\<close>

type_synonym splitter =
  "size_arg \<Rightarrow> size_arg \<Rightarrow> nat \<Rightarrow> nat \<Rightarrow> error + (nat list \<times> nat list)"

definition is_split :: "nat \<Rightarrow> nat list \<times> nat list \<Rightarrow> bool" where
  "is_split n p = (distinct (fst p @ snd p) \<and> list_all (\<lambda>k. k < n) (fst p @ snd p))"

text \<open>
  The body of the loop \<open>for i in range(num_classes)\<close> and the loop itself,
  with the four arrays built so far as accumulator. Indexing beyond the end
  raises IndexError.
\<close>

fun per_class_loop ::
  "splitter \<Rightarrow> 'x list \<Rightarrow> int list \<Rightarrow> size_arg \<Rightarrow> size_arg \<Rightarrow> nat list \<Rightarrow>
     'x list \<times> 'x list \<times> int list \<times> int list \<Rightarrow>
     error + ('x list \<times> 'x list \<times> int list \<times> int list)" where
  "per_class_loop tts X y train_size test_size [] acc = Inr acc"
| "per_class_loop tts X y train_size test_size (i # cs) (X_train_arr, X_test_arr, y_train_arr, y_test_arr) =
     (case select X (map (\<lambda>v. v = int i) y) of
        Inl e \<Rightarrow> Inl e
      | Inr Xi \<Rightarrow>
          (case tts train_size test_size i (length Xi) of
             Inl e \<Rightarrow> Inl e
           | Inr (tr, te) \<Rightarrow>
               if list_ex (\<lambda>k. length Xi \<le> k) (tr @ te) then Inl IndexError
               else per_class_loop tts X y train_size test_size cs
                      (X_train_arr @ map (\<lambda>k. Xi ! k) tr,
                       X_test_arr @ map (\<lambda>k. Xi ! k) te,
                       y_train_arr @ map (\<lambda>k. filter (\<lambda>v. v = int i) y ! k) tr,
                       y_test_arr @ map (\<lambda>k. filter (\<lambda>v. v = int i) y ! k) te)))"

text \<open>
  \<open>train_test_split_per_class(X, y, train_size, test_size)\<close>. The number of
  classes is the length of \<open>np.bincount(y)\<close>, and the four result arrays start
  empty.
\<close>

definition train_test_split_per_class ::
  "splitter \<Rightarrow> 'x list \<Rightarrow> int list \<Rightarrow> size_arg \<Rightarrow> size_arg \<Rightarrow>
     error + ('x list \<times> 'x list \<times> int list \<times> int list)" where
  "train_test_split_per_class tts X y train_size test_size =
     (case bincount y 0 of
        Inl e \<Rightarrow> Inl e
      | Inr counts \<Rightarrow>
          per_class_loop tts X y train_size test_size [0 ..< length counts] ([], [], [], []))"

section \<open>Effects on arrays and on the environment\<close>

text \<open>
  Which arrays the helpers read and write. An array is named by the number of
  its buffer; a view of an array (\<open>reshape\<close>, \<open>ravel\<close>, \<open>.T\<close>, a slice) has
  the buffer of the array it views. The world holds the number of buffers
  allocated so far, the logs of the buffers read and of the buffers written in
  place (the latest first) and the environment of the process. Contents are
  left out: they are the subject of the sections above.
\<close>

record world =
  next_ref :: nat
  accessed :: "nat list"
  written :: "nat list"
  environ :: "string \<Rightarrow> string option"

text \<open>
  \<open>np_new srcs\<close> is a call that builds a new array from the arrays \<open>srcs\<close>:
  \<open>np.zeros\<close>, \<open>np.array\<close>, \<open>np.arange\<close>, \<open>dot\<close>, arithmetic and comparisons
  on arrays, \<open>np.isnan\<close>, \<open>np.isinf\<close>, \<open>np.log\<close>, \<open>np.bincount\<close>,
  \<open>np.argwhere\<close>, \<open>np.append\<close>, \<open>np.hstack\<close>, indexing with a boolean or an
  integer array, and, outside NumPy, \<open>ReadAsArray\<close>, the matrix of
  \<open>BandResampler\<close> and the parts \<open>train_test_split\<close> returns.
  \<open>np_write r srcs\<close> is an assignment to an element, a slice or a masked part
  of the array \<open>r\<close>, with a right-hand side and indices read from \<open>srcs\<close>.
  \<open>np_read srcs\<close> is an expression that yields no array.
\<close>

definition np_read :: "nat list \<Rightarrow> world \<Rightarrow> world" where
  "np_read srcs w = w\<lparr>accessed := srcs @ accessed w\<rparr>"

definition np_new :: "nat list \<Rightarrow> world \<Rightarrow> nat \<times> world" where
  "np_new srcs w = (next_ref w, w\<lparr>next_ref := Suc (next_ref w), accessed := srcs @ accessed w\<rparr>)"

definition np_write :: "nat \<Rightarrow> nat list \<Rightarrow> world \<Rightarrow> world" where
  "np_write r srcs w = w\<lparr>accessed := srcs @ accessed w, written := r # written w\<rparr>"

definition np_view :: "nat \<Rightarrow> nat" where
  "np_view r = r"

text \<open>The body of a loop, run \<open>n\<close> times.\<close>

fun loop_times :: "nat \<Rightarrow> (world \<Rightarrow> world) \<Rightarrow> world \<Rightarrow> world" where
  "loop_times 0 body w = w"
| "loop_times (Suc n) body w = loop_times n body (body w)"

text \<open>
  \<open>band_resample_hsi_cube\<close>: \<open>data.reshape\<close> and \<open>mask.ravel()\<close> are views of
  the arguments; the two assignments write to \<open>out\<close>. The result
  \<open>out.reshape(...)\<close> is a view of \<open>out\<close>.
\<close>

definition band_resample_hsi_cube_fx ::
  "nat \<Rightarrow> nat \<Rightarrow> nat \<Rightarrow> nat \<Rightarrow> nat \<Rightarrow> nat option \<Rightarrow> world \<Rightarrow> nat \<times> world" where
  "band_resample_hsi_cube_fx data bands1 bands2 fwhm1 fwhm2 msk w =
     (let (matrix, w) = np_new [bands1, bands2, fwhm1, fwhm2] w;
          px = np_view data
      in case msk of
           None \<Rightarrow>
             (let (out, w) = np_new [matrix, px] w;
                  (nans, w) = np_new [out] w;
                  w = np_write out [nans] w
              in (np_view out, w))
         | Some m \<Rightarrow>
             (let (out, w) = np_new [] w;
                  mk = np_view m;
                  (picked, w) = np_new [px, mk] w;
                  (prod, w) = np_new [matrix, picked] w;
                  w = np_write out [mk, prod] w;
                  (nans, w) = np_new [out] w;
                  w = np_write out [nans] w
              in (np_view out, w)))"

text \<open>\<open>readENVIHeader\<close> builds the two arrays it returns.\<close>

definition readENVIHeader_fx :: "world \<Rightarrow> (nat \<times> nat) \<times> world" where
  "readENVIHeader_fx w =
     (let (centers, w) = np_new [] w;
          (fwhm, w) = np_new [] w
      in ((centers, fwhm), w))"

text \<open>
  \<open>read_hyperion_HSI_data\<close>: the index arrays, the first image and the cube
  are new; every later band is read into a new array and written into the
  cube, and each of the two calibration statements writes a new quotient into
  the cube.
\<close>

definition read_band_fx :: "nat \<Rightarrow> nat \<Rightarrow> world \<Rightarrow> world" where
  "read_band_fx cal data w = (let (img, w) = np_new [cal] w in np_write data [img] w)"

definition read_hyperion_HSI_data_fx :: "world \<Rightarrow> nat \<times> world" where
  "read_hyperion_HSI_data_fx w =
     (let (r1, w) = np_new [] w;
          (r2, w) = np_new [] w;
          (cal, w) = np_new [r1, r2] w;
          (tmp, w) = np_new [cal] w;
          (data, w) = np_new [] w;
          w = np_write data [tmp] w;
          w = loop_times 197 (read_band_fx cal data) w;
          (q1, w) = np_new [data] w;
          w = np_write data [q1] w;
          (q2, w) = np_new [data] w;
          w = np_write data [q2] w
      in (data, w))"

text \<open>
  The scan of \<open>patch_extractor_with_mask\<close>: one pass for every anchor the two
  loops visit, \<open>True\<close> in \<open>marks\<close> where the mask window is true everywhere
  and \<open>valid\<close> is incremented.
\<close>

fun scan_fx :: "nat \<Rightarrow> nat \<Rightarrow> nat \<Rightarrow> bool list \<Rightarrow> world \<Rightarrow> world" where
  "scan_fx msk patch_size valid [] w = w"
| "scan_fx msk patch_size valid (hit # marks) w =
     scan_fx msk patch_size valid marks
       (let w = np_read [np_view msk, patch_size] w
        in if hit then np_write valid [valid] w else w)"

text \<open>
  \<open>patch_extractor_with_mask\<close>, copying \<open>num_patches\<close> patches into
  \<open>patch_arr\<close>. The slices of \<open>mask\<close> and \<open>data\<close> are views of the arguments.
\<close>

definition patch_extractor_with_mask_fx ::
  "nat \<Rightarrow> nat \<Rightarrow> bool list \<Rightarrow> nat \<Rightarrow> world \<Rightarrow> nat \<times> world" where
  "patch_extractor_with_mask_fx data msk marks num_patches w =
     (let (patch_arr, w) = np_new [] w;
          (patch_size, w) = np_new [] w;
          (valid, w) = np_new [] w;
          w = scan_fx msk patch_size valid marks w;
          (positive, w) = np_new [valid] w;
          (idx, w) = np_new [positive] w;
          (drawn, w) = np_new [] w;
          (idx, w) = np_new [idx, drawn] w;
          w = loop_times num_patches (np_write patch_arr [idx, patch_size, np_view data]) w
      in (patch_arr, w))"

text \<open>\<open>patch_extractor\<close>: one slice assignment marks \<open>valid\<close>.\<close>

definition patch_extractor_fx :: "nat \<Rightarrow> nat \<Rightarrow> world \<Rightarrow> nat \<times> world" where
  "patch_extractor_fx data num_patches w =
     (let (patch_arr, w) = np_new [] w;
          (patch_size, w) = np_new [] w;
          (valid, w) = np_new [] w;
          w = np_write valid [patch_size] w;
          (positive, w) = np_new [valid] w;
          (idx, w) = np_new [positive] w;
          (drawn, w) = np_new [] w;
          (idx, w) = np_new [idx, drawn] w;
          w = loop_times num_patches (np_write patch_arr [idx, patch_size, np_view data]) w
      in (patch_arr, w))"

text \<open>
  \<open>class_weights\<close>: the name \<open>class_weights\<close> is bound in turn to the counts,
  to the quotients and to the scaled logarithms, each a new array; the two
  masked assignments write to the quotients and to the scaled logarithms.
  \<open>np.max(labels)\<close> is evaluated when \<open>numClasses\<close> is \<open>None\<close>.
\<close>

definition class_weights_fx :: "nat \<Rightarrow> bool \<Rightarrow> world \<Rightarrow> nat \<times> world" where
  "class_weights_fx labels numClasses_is_None w =
     (let w = (if numClasses_is_None then np_read [labels] w else w);
          (counts, w) = np_new [labels] w;
          (quot, w) = np_new [counts] w;
          (infs, w) = np_new [quot] w;
          w = np_write quot [infs] w;
          (logs, w) = np_new [quot] w;
          (scaled, w) = np_new [logs] w;
          (small, w) = np_new [scaled] w;
          w = np_write scaled [small] w
      in (scaled, w))"

text \<open>
  \<open>train_test_split_per_class\<close>: the only assignment to an element is
  \<open>sh[0] = 0\<close>, on the new array \<open>np.array(X.shape)\<close>. Each pass of the loop
  builds the two comparisons \<open>y == i\<close>, the two selections, the four parts
  \<open>train_test_split\<close> returns and the four arrays \<open>np.append\<close> returns, to
  which the four names are bound afterwards.
\<close>

fun per_class_loop_fx ::
  "nat \<Rightarrow> nat \<Rightarrow> nat \<Rightarrow> nat \<times> nat \<times> nat \<times> nat \<Rightarrow> world \<Rightarrow>
     (nat \<times> nat \<times> nat \<times> nat) \<times> world" where
  "per_class_loop_fx X y 0 acc w = (acc, w)"
| "per_class_loop_fx X y (Suc n) (X_train_arr, X_test_arr, y_train_arr, y_test_arr) w =
     (let (eq1, w) = np_new [y] w;
          (Xi, w) = np_new [X, eq1] w;
          (eq2, w) = np_new [y] w;
          (yi, w) = np_new [y, eq2] w;
          (X_train, w) = np_new [Xi] w;
          (X_test, w) = np_new [Xi] w;
          (y_train, w) = np_new [yi] w;
          (y_test, w) = np_new [yi] w;
          (X_train_arr, w) = np_new [X_train_arr, X_train] w;
          (X_test_arr, w) = np_new [X_test_arr, X_test] w;
          (y_train_arr, w) = np_new [y_train_arr, y_train] w;
          (y_test_arr, w) = np_new [y_test_arr, y_test] w
      in per_class_loop_fx X y n (X_train_arr, X_test_arr, y_train_arr, y_test_arr) w)"

definition train_test_split_per_class_fx ::
  "nat \<Rightarrow> nat \<Rightarrow> nat \<Rightarrow> world \<Rightarrow> (nat \<times> nat \<times> nat \<times> nat) \<times> world" where
  "train_test_split_per_class_fx X y num_classes w =
     (let (sh, w) = np_new [] w;
          (counts, w) = np_new [y] w;
          w = np_write sh [] w;
          (X_train_arr, w) = np_new [sh] w;
          (X_test_arr, w) = np_new [sh] w;
          (y_train_arr, w) = np_new [] w;
          (y_test_arr, w) = np_new [] w
      in per_class_loop_fx X y num_classes (X_train_arr, X_test_arr, y_train_arr, y_test_arr) w)"

text \<open>
  \<open>set_gpu(device)\<close>: \<open>device\<close> is \<open>None\<close> or the text \<open>str(device)\<close> of the
  device; the assignment to \<open>os.environ\<close> sets one variable.
\<close>

definition set_gpu :: "string option \<Rightarrow> world \<Rightarrow> world" where
  "set_gpu device w =
     w\<lparr>environ := (environ w)(''CUDA_VISIBLE_DEVICES'' \<mapsto>
                      (case device of None \<Rightarrow> [] | Some d \<Rightarrow> d))\<rparr>"

section \<open>Properties of the class weights\<close>

lemma indicator_sum_upt:
  assumes "0 \<le> a" "a < int n"
  shows "(\<Sum>c\<leftarrow>[0..<n]. (if a = int c then 1 else 0::int)) = 1"
proof -
  have "(\<Sum>c\<leftarrow>[0..<n]. (if a = int c then 1 else 0::int)) = (\<Sum>c\<in>{0..<n}. (if c = nat a then 1 else 0::int))"
    unfolding interv_sum_list_conv_sum_set_nat using assms
    by (intro sum.cong) auto
  also have "\<dots> = 1" using assms by simp
  finally show ?thesis .
qed

lemma count_sum_upt:
  "\<forall>v\<in>set x. 0 \<le> v \<and> v < int n \<Longrightarrow>
     (\<Sum>c\<leftarrow>[0..<n]. int (count_list x (int c))) = int (length x)"
proof (induction x)
  case Nil then show ?case by simp
next
  case (Cons a x)
  have "(\<Sum>c\<leftarrow>[0..<n]. int (count_list (a # x) (int c)))
      = (\<Sum>c\<leftarrow>[0..<n]. int (count_list x (int c)) + (if a = int c then 1 else 0))"
    by (intro arg_cong[where f=sum_list] map_cong) auto
  also have "\<dots> = (\<Sum>c\<leftarrow>[0..<n]. int (count_list x (int c))) + (\<Sum>c\<leftarrow>[0..<n]. (if a = int c then 1 else 0::int))"
    by (simp add: sum_list_addf)
  finally show ?case using Cons indicator_sum_upt[of a n] by simp
qed

lemma bincount_Inr:
  assumes "bincount x n = Inr counts"
  shows "sum_list counts = int (length x)"
    and "c < length counts \<Longrightarrow> counts ! c = int (count_list x (int c))"
proof -
  let ?m = "max (nat n) (if x = [] then 0 else nat (Max (set x) + 1))"
  from assms have nonneg: "\<forall>v\<in>set x. 0 \<le> v"
    and counts: "counts = map (\<lambda>c. int (count_list x (int c))) [0..<?m]"
    by (auto simp: bincount_def split: if_splits)
  have "\<forall>v\<in>set x. v < int ?m"
  proof
    fix v assume v: "v \<in> set x"
    then have le: "v \<le> Max (set x)" and ne: "x \<noteq> []" by auto
    from nonneg v have "0 \<le> v" by blast
    with le have "v < int (nat (Max (set x) + 1))" by simp
    moreover from ne have "nat (Max (set x) + 1) \<le> ?m" by simp
    ultimately show "v < int ?m" by linarith
  qed
  with nonneg have "\<forall>v\<in>set x. 0 \<le> v \<and> v < int ?m" by blast
  from count_sum_upt[OF this] show "sum_list counts = int (length x)"
    by (simp add: counts)
  show "c < length counts \<Longrightarrow> counts ! c = int (count_list x (int c))"
    by (simp add: counts)
qed

lemma class_weights_nth:
  assumes "class_weights labels mu numClasses = Inr ws" "c < length ws"
  shows "ws ! c =
    (let q = true_divide (int (length labels)) (int (count_list labels (int c)));
         l = fl_mul mu (fl_log (if isinf q then Num 0 else q))
     in if fl_less l (Num 1) then Num 1 else l)"
proof -
  from assms(1) obtain n counts where
    bc: "bincount labels n = Inr counts"
    and ws: "ws = map (\<lambda>w. if fl_less w (Num 1) then Num 1 else w)
               (map (\<lambda>w. fl_mul mu (fl_log w))
                 (map (\<lambda>w. if isinf w then Num 0 else w)
                   (map (true_divide (sum_list counts)) counts)))"
    by (auto simp: class_weights_def Let_def split: option.splits sum.splits if_splits)
  from ws assms(2) have c: "c < length counts" by simp
  show ?thesis
    using c by (simp add: ws bincount_Inr[OF bc] Let_def)
qed

lemma true_divide_zero: "true_divide (int n) 0 = (if n = 0 then NaN else PInf)"
  by (simp add: true_divide_def)

lemma true_divide_pos: "0 < k \<Longrightarrow> true_divide (int n) (int k) = Num (real n / real k)"
  by (simp add: true_divide_def)

lemma clamp_ok: "isnan (if fl_less l (Num 1) then Num 1 else l) \<or> fl_le (Num 1) (if fl_less l (Num 1) then Num 1 else l)"
  by (cases l) auto

lemma ln_4_gt_1: "1 < ln (4::real)"
proof -
  have "exp 1 < (4::real)" using exp_le by linarith
  then have "ln (exp 1) < ln (4::real)" by (subst ln_less_cancel_iff) auto
  then show ?thesis by simp
qed

lemma ln_4_3_lt_1: "ln (4/3::real) < 1"
  using ln_le_minus_one[of "4/3::real"] by simp

text \<open>
  C1 (as amended). For a class index that no label has, the quotient
  \<open>total / 0\<close> is replaced by 0 before the logarithm is taken, so the
  weight is never 0: it is 1 when \<open>mu\<close> is positive and there is at least one
  label (\<open>log 0 = -inf\<close>, \<open>mu * -inf = -inf\<close>, clamped up to 1), NaN when
  there are no labels or \<open>mu\<close> is zero or NaN, and \<open>+inf\<close> when \<open>mu\<close> is
  negative.
\<close>

theorem class_weights_absent_class:
  assumes "class_weights labels mu numClasses = Inr ws" "c < length ws"
    and "count_list labels (int c) = 0"
  shows "ws ! c \<noteq> Num 0 \<and>
         ws ! c = (if labels = [] \<or> isnan mu \<or> mu = Num 0 then NaN
                   else if fl_less (Num 0) mu then Num 1 else PInf)"
proof -
  have "ws ! c = (if labels = [] \<or> isnan mu \<or> mu = Num 0 then NaN
                   else if fl_less (Num 0) mu then Num 1 else PInf)"
    unfolding class_weights_nth[OF assms(1,2)] assms(3)
    by (cases mu) (auto simp: true_divide_zero Let_def)
  then show ?thesis by auto
qed

text \<open>
  C5 (as amended). Every returned weight that is not NaN is at least 1, and
  with at least one label and a finite nonzero \<open>mu\<close> every returned weight
  is at least 1. For labels \<open>[0,0,0,1]\<close>, \<open>mu = 1\<close> and two classes
  the weight of class 1 is \<open>log 4\<close>, which exceeds 1, and the weight of
  class 0 is 1, clamped up from \<open>log (4/3)\<close>.
\<close>

theorem class_weights_at_least_1:
  "(class_weights labels mu numClasses = Inr ws \<longrightarrow> c < length ws \<longrightarrow>
      (isnan (ws ! c) \<or> fl_le (Num 1) (ws ! c)) \<and>
      (labels \<noteq> [] \<and> mu = Num m \<and> m \<noteq> 0 \<longrightarrow> fl_le (Num 1) (ws ! c)))
   \<and> class_weights [0,0,0,1] (Num 1) (Some 2) = Inr [Num 1, Num (ln 4)]
   \<and> 1 < ln (4::real) \<and> ln (4/3::real) < 1"
proof (intro conjI impI)
  assume a: "class_weights labels mu numClasses = Inr ws" "c < length ws"
  show "isnan (ws ! c) \<or> fl_le (Num 1) (ws ! c)"
    unfolding class_weights_nth[OF a] Let_def by (rule clamp_ok)
next
  assume a: "class_weights labels mu numClasses = Inr ws" "c < length ws"
    and b: "labels \<noteq> [] \<and> mu = Num m \<and> m \<noteq> 0"
  show "fl_le (Num 1) (ws ! c)"
  proof (cases "count_list labels (int c) = 0")
    case True
    with b show ?thesis
      unfolding class_weights_nth[OF a] by (auto simp: true_divide_zero Let_def)
  next
    case False
    with b show ?thesis
      unfolding class_weights_nth[OF a] by (auto simp: true_divide_pos Let_def)
  qed
next
  show "class_weights [0,0,0,1] (Num 1) (Some 2) = Inr [Num 1, Num (ln 4)]"
    using ln_4_gt_1 ln_4_3_lt_1
    by (simp add: class_weights_def bincount_def true_divide_def Let_def upt_conv_Cons numeral_2_eq_2)
qed (rule ln_4_gt_1 ln_4_3_lt_1)+

theorem class_weights_at_least_1_witness:
  "class_weights [0,0,0,1] (Num 1) (Some 2) = Inr [Num 1, Num (ln 4)] \<and> (1::nat) < length [Num 1, Num (ln 4)]
   \<and> [0,0,0,1::int] \<noteq> [] \<and> (1::real) \<noteq> 0 \<and> fl_le (Num 1) ([Num 1, Num (ln 4)] ! 1)"
  using class_weights_at_least_1[of "[0,0,0,1]" "Num 1" "Some 2" "[Num 1, Num (ln 4)]" 1 1]
  by simp

theorem class_weights_absent_class_witness:
  "class_weights [0,0,0] (Num 1) (Some 2) = Inr [Num 1, Num 1] \<and> (1::nat) < length [Num 1, Num 1 :: npfloat]
   \<and> count_list [0,0,0::int] (int 1) = 0 \<and> [Num 1, Num 1] ! 1 = Num 1"
  using class_weights_absent_class[of "[0,0,0]" "Num 1" "Some 2" "[Num 1, Num 1]" 1]
  by (simp add: class_weights_def bincount_def true_divide_def Let_def upt_conv_Cons numeral_2_eq_2)

text \<open>
  C1 as stated fails: with labels \<open>[0,0,0]\<close>, \<open>mu = 1\<close> and two classes,
  class 1 is absent and its weight is 1, not 0.
\<close>

theorem class_weights_absent_class_counterexample:
  "count_list [0,0,0::int] 1 = 0 \<and> class_weights [0,0,0] (Num 1) (Some 2) = Inr [Num 1, Num 1]
   \<and> [Num 1, Num 1] ! 1 \<noteq> Num 0"
  by (simp add: class_weights_def bincount_def true_divide_def Let_def upt_conv_Cons numeral_2_eq_2)

text \<open>
  C5 as stated fails: with labels \<open>[0]\<close>, \<open>mu = 0\<close> and two classes the
  weight of the absent class 1 is \<open>0 * -inf\<close>, which is NaN; NaN is not below 1,
  so it is not clamped, and it is not at least 1.
\<close>

theorem class_weights_at_least_1_counterexample:
  "class_weights [0] (Num 0) (Some 2) = Inr [Num 1, NaN] \<and> \<not> fl_le (Num 1) ([Num 1, NaN] ! 1)"
  by (simp add: class_weights_def bincount_def true_divide_def Let_def upt_conv_Cons numeral_2_eq_2)

section \<open>Properties of patch extraction\<close>

lemma set_window_hits:
  "(i, j) \<in> set (window_hits msk h w p) \<longleftrightarrow>
     i < h - p \<and> j < w - p \<and> np_all (crop (rowsof msk) i j p p)"
  by (auto simp: window_hits_def)

lemma distinct_pairs:
  "distinct is \<Longrightarrow> (\<And>i. distinct (g i)) \<Longrightarrow>
     distinct (concat (map (\<lambda>i. map (Pair i) (g i)) is))"
  by (induction "is") (auto simp: distinct_map inj_on_def)

lemma distinct_window_hits: "distinct (window_hits msk h w p)"
  unfolding window_hits_def by (rule distinct_pairs) auto

lemma distinct_valid_anchors: "distinct (valid_anchors data p)"
  unfolding valid_anchors_def by (rule distinct_pairs) auto

lemma valid_anchors_with_mask_Inr:
  "valid_anchors_with_mask data msk p = Inr idx \<Longrightarrow>
     idx = window_hits msk (height data) (width data) p"
  by (auto simp: valid_anchors_with_mask_def Let_def split: if_splits)

lemma take_rows_Inr:
  assumes "take_rows idx sel = Inr as"
  shows "as = map (\<lambda>s. idx ! s) sel" and "\<forall>s \<in> set sel. s < length idx" and "sel \<noteq> []"
  using assms by (auto simp: take_rows_def list_ex_iff split: if_splits)

lemma take_rows_subset: "take_rows idx sel = Inr as \<Longrightarrow> set as \<subseteq> set idx"
  using take_rows_Inr[of idx sel as] by auto

lemma take_rows_distinct:
  assumes "take_rows idx sel = Inr as" "distinct idx" "distinct sel"
  shows "distinct as"
proof -
  have "inj_on (\<lambda>s. idx ! s) (set sel)"
    using take_rows_Inr(2)[OF assms(1)] assms(2)
    by (auto simp: inj_on_def nth_eq_iff_index_eq)
  with assms(3) show ?thesis
    by (simp add: take_rows_Inr(1)[OF assms(1)] distinct_map)
qed

lemma fill_patches_Inr:
  "fill_patches data p as = Inr ps \<Longrightarrow>
     length ps = length as \<and> (\<forall>q < length as. assign_patch data p (as ! q) = Inr (ps ! q))"
proof (induction as arbitrary: ps)
  case Nil
  then show ?case by simp
next
  case (Cons a as)
  then obtain patch rest where
    a: "assign_patch data p a = Inr patch" and r: "fill_patches data p as = Inr rest"
    and ps: "ps = patch # rest"
    by (auto split: sum.splits)
  from Cons.IH[OF r] a ps show ?case
    by (auto simp: nth_Cons split: nat.splits)
qed

lemma crop_full:
  assumes "wf_cube data" "i + p \<le> height data" "j + p \<le> width data"
  shows "length (crop (cells data) i j p p) = p"
    and "\<forall>r \<in> set (crop (cells data) i j p p). length r = p"
proof -
  from assms show "length (crop (cells data) i j p p) = p"
    by (simp add: crop_def wf_cube_def)
  show "\<forall>r \<in> set (crop (cells data) i j p p). length r = p"
  proof
    fix r assume "r \<in> set (crop (cells data) i j p p)"
    then obtain r0 where r0: "r0 \<in> set (cells data)" and r: "r = take p (drop j r0)"
      by (auto simp: crop_def dest: in_set_takeD in_set_dropD)
    from assms(1) r0 have "length r0 = width data"
      by (auto simp: wf_cube_def list_all_iff)
    with assms(3) show "length r = p" by (simp add: r)
  qed
qed

lemma assign_patch_full:
  assumes "wf_cube data" "i + p \<le> height data" "j + p \<le> width data"
  shows "assign_patch data p (i, j) = Inr (crop (cells data) i j p p)"
proof -
  have "map (broadcast p) (crop (cells data) i j p p) = crop (cells data) i j p p"
    using crop_full(2)[OF assms] by (simp add: broadcast_def map_idI)
  with crop_full(1)[OF assms] assms(2,3) show ?thesis
    by (simp add: assign_patch_def Let_def broadcast_def)
qed

text \<open>
  C2. Whenever \<open>patch_extractor_with_mask\<close> returns, it returns one patch for
  every sampled anchor; at every sampled anchor \<open>(i, j)\<close> the mask window
  \<open>mask[i:i+patch_size, j:j+patch_size]\<close> is true everywhere, and the patch
  at that position of the result is the crop
  \<open>data[i:i+patch_size, j:j+patch_size]\<close>.
\<close>

theorem patches_inside_mask:
  assumes "wf_cube data"
    and "patch_extractor_with_mask data msk num_patches patch_size draw = Inr patches"
  shows "\<exists>anchors. sampled_anchors_with_mask data msk num_patches patch_size draw = Inr anchors \<and>
           length patches = length anchors \<and>
           (\<forall>q < length anchors.
              np_all (crop (rowsof msk) (fst (anchors ! q)) (snd (anchors ! q))
                        (nat patch_size) (nat patch_size)) \<and>
              patches ! q = crop (cells data) (fst (anchors ! q)) (snd (anchors ! q))
                              (nat patch_size) (nat patch_size))"
proof -
  let ?p = "nat patch_size"
  from assms(2) obtain anchors where
    sa: "sampled_anchors_with_mask data msk num_patches patch_size draw = Inr anchors"
    and fp: "fill_patches data ?p anchors = Inr patches"
    by (auto simp: patch_extractor_with_mask_def split: sum.splits)
  from sa obtain idx sel where
    idx: "valid_anchors_with_mask data msk ?p = Inr idx"
    and tr: "take_rows idx sel = Inr anchors"
    by (auto simp: sampled_anchors_with_mask_def split: if_splits sum.splits)
  have hits: "set anchors \<subseteq> set (window_hits msk (height data) (width data) ?p)"
    using take_rows_subset[OF tr] valid_anchors_with_mask_Inr[OF idx] by simp
  have "\<forall>q < length anchors.
          np_all (crop (rowsof msk) (fst (anchors ! q)) (snd (anchors ! q)) ?p ?p) \<and>
          patches ! q = crop (cells data) (fst (anchors ! q)) (snd (anchors ! q)) ?p ?p"
  proof (intro allI impI)
    fix q assume q: "q < length anchors"
    obtain i j where ij: "anchors ! q = (i, j)" by (cases "anchors ! q")
    with q hits have "(i, j) \<in> set (window_hits msk (height data) (width data) ?p)"
      by (metis nth_mem subsetD)
    then have b: "i < height data - ?p" "j < width data - ?p"
      and t: "np_all (crop (rowsof msk) i j ?p ?p)"
      by (auto simp: set_window_hits)
    from b have "i + ?p \<le> height data" "j + ?p \<le> width data" by auto
    from assign_patch_full[OF assms(1) this] fill_patches_Inr[OF fp] q ij
    have "patches ! q = crop (cells data) i j ?p ?p" by auto
    with t ij show "np_all (crop (rowsof msk) (fst (anchors ! q)) (snd (anchors ! q)) ?p ?p) \<and>
          patches ! q = crop (cells data) (fst (anchors ! q)) (snd (anchors ! q)) ?p ?p"
      by simp
  qed
  with sa fill_patches_Inr[OF fp] show ?thesis by auto
qed


lemma sampled_anchors_with_mask_Inr:
  assumes "sampled_anchors_with_mask data msk num_patches patch_size draw = Inr anchors"
  shows "take_rows (window_hits msk (height data) (width data) (nat patch_size)) draw = Inr anchors"
  using assms valid_anchors_with_mask_Inr[of data msk "nat patch_size"]
  by (auto simp: sampled_anchors_with_mask_def sample_def split: if_splits sum.splits)

lemma sampled_anchors_Inr:
  assumes "sampled_anchors data num_patches patch_size draw = Inr anchors"
  shows "take_rows (valid_anchors data (nat patch_size)) draw = Inr anchors"
  using assms
  by (auto simp: sampled_anchors_def sample_def split: if_splits sum.splits)

lemma false_window:
  assumes "wf_arr2 msk" "list_all (list_all Not) (rowsof msk)" "0 < p"
    and "i < nrows msk" "j < ncols msk"
  shows "\<not> np_all (crop (rowsof msk) i j p p)"
proof -
  from assms(1,4) have i: "i < length (rowsof msk)" by (simp add: wf_arr2_def)
  let ?r = "rowsof msk ! i"
  from assms(1) i assms(5) have j: "j < length ?r"
    by (auto simp: wf_arr2_def list_all_iff)
  from i have "?r \<in> set (rowsof msk)" by simp
  moreover from j have "?r ! j \<in> set ?r" by simp
  ultimately have f: "\<not> ?r ! j" using assms(2) by (auto simp: list_all_iff)
  from i assms(3) have "take p (drop j ?r) \<in> set (crop (rowsof msk) i j p p)"
    by (cases p) (auto simp: crop_def hd_drop_conv_nth take_Suc intro!: image_eqI[where x = ?r])
  moreover from j assms(3) have "?r ! j \<in> set (take p (drop j ?r))"
    by (cases p) (auto simp: hd_drop_conv_nth take_Suc)
  ultimately show ?thesis using f
    by (auto simp: np_all_def list_all_iff)
qed

lemma false_mask_no_anchor:
  assumes "wf_arr2 msk" "list_all (list_all Not) (rowsof msk)" "0 < p"
    and "valid_anchors_with_mask data msk p = Inr idx"
  shows "idx = []"
proof (rule ccontr)
  assume "idx \<noteq> []"
  then obtain i j where ij: "(i, j) \<in> set idx" by (cases idx) auto
  from assms(4) have idx: "idx = window_hits msk (height data) (width data) p"
    and inb: "\<not> list_ex (\<lambda>(i, j). nrows msk \<le> i \<or> ncols msk \<le> j) idx"
    by (auto simp: valid_anchors_with_mask_def Let_def split: if_splits)
  from inb ij have "i < nrows msk" "j < ncols msk"
    by (auto simp: list_ex_iff)
  from false_window[OF assms(1-3) this] ij show False
    by (simp add: idx set_window_hits)
qed

text \<open>
  C3 (as amended). For both extractors the sampled anchors are pairwise
  distinct and there are \<open>num_patches\<close> of them, for every outcome of
  \<open>random.sample\<close>; when \<open>num_patches\<close> exceeds the number of valid anchors
  the call raises ValueError; and with a mask that is false everywhere and a
  positive \<open>patch_size\<close>, asking for one patch raises.
\<close>

theorem sampling_without_replacement:
  "(valid_anchors_with_mask data msk (nat patch_size) = Inr idx \<and>
    is_sample (length idx) (nat num_patches) draw \<and>
    sampled_anchors_with_mask data msk num_patches patch_size draw = Inr anchors
      \<longrightarrow> distinct anchors \<and> length anchors = nat num_patches)
   \<and> (is_sample (length (valid_anchors data (nat patch_size))) (nat num_patches) draw \<and>
       sampled_anchors data num_patches patch_size draw = Inr anchors'
      \<longrightarrow> distinct anchors' \<and> length anchors' = nat num_patches)
   \<and> (valid_anchors_with_mask data msk (nat patch_size) = Inr idx \<and>
       int (length idx) < num_patches
      \<longrightarrow> patch_extractor_with_mask data msk num_patches patch_size draw = Inl ValueError)
   \<and> (int (length (valid_anchors data (nat patch_size))) < num_patches
      \<longrightarrow> patch_extractor data num_patches patch_size draw = Inl ValueError)
   \<and> (wf_arr2 msk \<and> list_all (list_all Not) (rowsof msk) \<and> 0 < patch_size
      \<longrightarrow> (\<exists>e. patch_extractor_with_mask data msk 1 patch_size draw = Inl e))"
proof (intro conjI impI)
  assume a: "valid_anchors_with_mask data msk (nat patch_size) = Inr idx \<and>
    is_sample (length idx) (nat num_patches) draw \<and>
    sampled_anchors_with_mask data msk num_patches patch_size draw = Inr anchors"
  then have tr: "take_rows (window_hits msk (height data) (width data) (nat patch_size)) draw = Inr anchors"
    using sampled_anchors_with_mask_Inr by blast
  from a have "distinct draw" "length draw = nat num_patches" by (auto simp: is_sample_def)
  with take_rows_distinct[OF tr distinct_window_hits] take_rows_Inr(1)[OF tr]
  show "distinct anchors" "length anchors = nat num_patches" by auto
next
  assume a: "is_sample (length (valid_anchors data (nat patch_size))) (nat num_patches) draw \<and>
       sampled_anchors data num_patches patch_size draw = Inr anchors'"
  then have tr: "take_rows (valid_anchors data (nat patch_size)) draw = Inr anchors'"
    using sampled_anchors_Inr by blast
  from a have "distinct draw" "length draw = nat num_patches" by (auto simp: is_sample_def)
  with take_rows_distinct[OF tr distinct_valid_anchors] take_rows_Inr(1)[OF tr]
  show "distinct anchors'" "length anchors' = nat num_patches" by auto
next
  assume "valid_anchors_with_mask data msk (nat patch_size) = Inr idx \<and>
       int (length idx) < num_patches"
  then show "patch_extractor_with_mask data msk num_patches patch_size draw = Inl ValueError"
    by (simp add: patch_extractor_with_mask_def sampled_anchors_with_mask_def sample_def)
next
  assume "int (length (valid_anchors data (nat patch_size))) < num_patches"
  then show "patch_extractor data num_patches patch_size draw = Inl ValueError"
    by (simp add: patch_extractor_def sampled_anchors_def sample_def)
next
  assume a: "wf_arr2 msk \<and> list_all (list_all Not) (rowsof msk) \<and> 0 < patch_size"
  show "\<exists>e. patch_extractor_with_mask data msk 1 patch_size draw = Inl e"
  proof (cases "valid_anchors_with_mask data msk (nat patch_size)")
    case (Inl e)
    with a show ?thesis
      by (simp add: patch_extractor_with_mask_def sampled_anchors_with_mask_def)
  next
    case (Inr idx)
    with a false_mask_no_anchor[of msk "nat patch_size" data idx] have "idx = []" by simp
    with Inr a show ?thesis
      by (simp add: patch_extractor_with_mask_def sampled_anchors_with_mask_def sample_def)
  qed
qed

text \<open>
  C10. Every candidate anchor \<open>(i, j)\<close> of the masked scan, and so every
  sampled anchor, has \<open>i + patch_size < rows\<close> and \<open>j + patch_size < cols\<close>:
  the anchors in row \<open>rows - patch_size\<close> and in column
  \<open>cols - patch_size\<close> are left out, although their footprints fit. On a 2
  by 2 image with a mask that is true everywhere and \<open>patch_size = 1\<close> the only
  candidate is \<open>(0, 0)\<close>.
\<close>

theorem scan_excludes_last_anchors:
  "(valid_anchors_with_mask data msk p = Inr idx \<and> (i, j) \<in> set idx
      \<longrightarrow> i + p < height data \<and> j + p < width data)
   \<and> (sampled_anchors_with_mask data msk num_patches patch_size draw = Inr anchors \<and>
       (i, j) \<in> set anchors
      \<longrightarrow> i + nat patch_size < height data \<and> j + nat patch_size < width data)
   \<and> valid_anchors_with_mask
        \<lparr>height = 2, width = 2, depth = 1, cells = [[[1::nat], [2]], [[3], [4]]]\<rparr>
        \<lparr>nrows = 2, ncols = 2, rowsof = [[True, True], [True, True]]\<rparr> 1 = Inr [(0, 0)]"
proof (intro conjI impI)
  assume a: "valid_anchors_with_mask data msk p = Inr idx \<and> (i, j) \<in> set idx"
  then have "(i, j) \<in> set (window_hits msk (height data) (width data) p)"
    using valid_anchors_with_mask_Inr[of data msk p idx] by simp
  then show "i + p < height data" "j + p < width data"
    by (auto simp: set_window_hits)
next
  assume a: "sampled_anchors_with_mask data msk num_patches patch_size draw = Inr anchors \<and>
       (i, j) \<in> set anchors"
  then have "(i, j) \<in> set (window_hits msk (height data) (width data) (nat patch_size))"
    using take_rows_subset[OF sampled_anchors_with_mask_Inr, of data msk num_patches patch_size draw anchors]
    by auto
  then show "i + nat patch_size < height data" "j + nat patch_size < width data"
    by (auto simp: set_window_hits)
next
  show "valid_anchors_with_mask
        \<lparr>height = 2, width = 2, depth = 1, cells = [[[1::nat], [2]], [[3], [4]]]\<rparr>
        \<lparr>nrows = 2, ncols = 2, rowsof = [[True, True], [True, True]]\<rparr> 1 = Inr [(0, 0)]"
    by (simp add: valid_anchors_with_mask_def window_hits_def crop_def np_all_def Let_def)
qed


theorem patches_inside_mask_witness:
  "wf_cube \<lparr>height = 3, width = 3, depth = 1, cells = [[[1::nat],[2],[3]],[[4],[5],[6]],[[7],[8],[9]]]\<rparr> \<and>
   patch_extractor_with_mask \<lparr>height = 3, width = 3, depth = 1, cells = [[[1::nat],[2],[3]],[[4],[5],[6]],[[7],[8],[9]]]\<rparr> \<lparr>nrows = 3, ncols = 3, rowsof = [[True,True,True],[True,True,True],[False,True,True]]\<rparr> 2 1 [3, 0] = Inr [[[[5]]], [[[1]]]] \<and>
   (\<exists>anchors. sampled_anchors_with_mask \<lparr>height = 3, width = 3, depth = 1, cells = [[[1::nat],[2],[3]],[[4],[5],[6]],[[7],[8],[9]]]\<rparr> \<lparr>nrows = 3, ncols = 3, rowsof = [[True,True,True],[True,True,True],[False,True,True]]\<rparr> 2 1 [3, 0] = Inr anchors \<and>
      length [[[[5]]], [[[1::nat]]]] = length anchors \<and>
      (\<forall>q < length anchors.
         np_all (crop (rowsof \<lparr>nrows = 3, ncols = 3, rowsof = [[True,True,True],[True,True,True],[False,True,True]]\<rparr>) (fst (anchors ! q)) (snd (anchors ! q)) (nat 1) (nat 1)) \<and>
         [[[[5]]], [[[1]]]] ! q =
           crop (cells \<lparr>height = 3, width = 3, depth = 1, cells = [[[1::nat],[2],[3]],[[4],[5],[6]],[[7],[8],[9]]]\<rparr>) (fst (anchors ! q)) (snd (anchors ! q)) (nat 1) (nat 1)))"
proof -
  have h1: "wf_cube \<lparr>height = 3, width = 3, depth = 1, cells = [[[1::nat],[2],[3]],[[4],[5],[6]],[[7],[8],[9]]]\<rparr>" by code_simp
  have h2: "patch_extractor_with_mask \<lparr>height = 3, width = 3, depth = 1, cells = [[[1::nat],[2],[3]],[[4],[5],[6]],[[7],[8],[9]]]\<rparr> \<lparr>nrows = 3, ncols = 3, rowsof = [[True,True,True],[True,True,True],[False,True,True]]\<rparr> 2 1 [3, 0] = Inr [[[[5]]], [[[1]]]]" by code_simp
  from patches_inside_mask[OF h1 h2] h1 h2 show ?thesis by blast
qed

theorem sampling_without_replacement_witness:
  "valid_anchors_with_mask \<lparr>height = 3, width = 3, depth = 1, cells = [[[1::nat],[2],[3]],[[4],[5],[6]],[[7],[8],[9]]]\<rparr> \<lparr>nrows = 3, ncols = 3, rowsof = [[True,True,True],[True,True,True],[False,True,True]]\<rparr> (nat 1) = Inr [(0, 0), (0, 1), (1, 0), (1, 1)] \<and>
   is_sample (length [(0, 0), (0, 1), (1, 0), (1::nat, 1::nat)]) (nat 2) [3, 0] \<and>
   sampled_anchors_with_mask \<lparr>height = 3, width = 3, depth = 1, cells = [[[1::nat],[2],[3]],[[4],[5],[6]],[[7],[8],[9]]]\<rparr> \<lparr>nrows = 3, ncols = 3, rowsof = [[True,True,True],[True,True,True],[False,True,True]]\<rparr> 2 1 [3, 0] = Inr [(1, 1), (0, 0)] \<and>
   distinct [(1, 1), (0::nat, 0::nat)] \<and>
   is_sample (length (valid_anchors \<lparr>height = 3, width = 3, depth = 1, cells = [[[1::nat],[2],[3]],[[4],[5],[6]],[[7],[8],[9]]]\<rparr> (nat 1))) (nat 2) [3, 0] \<and>
   sampled_anchors \<lparr>height = 3, width = 3, depth = 1, cells = [[[1::nat],[2],[3]],[[4],[5],[6]],[[7],[8],[9]]]\<rparr> 2 1 [3, 0] = Inr [(1, 1), (0, 0)] \<and>
   int (length [(0, 0), (0, 1), (1, 0), (1::nat, 1::nat)]) < 5 \<and>
   patch_extractor_with_mask \<lparr>height = 3, width = 3, depth = 1, cells = [[[1::nat],[2],[3]],[[4],[5],[6]],[[7],[8],[9]]]\<rparr> \<lparr>nrows = 3, ncols = 3, rowsof = [[True,True,True],[True,True,True],[False,True,True]]\<rparr> 5 1 [3, 0] = Inl ValueError \<and>
   int (length (valid_anchors \<lparr>height = 3, width = 3, depth = 1, cells = [[[1::nat],[2],[3]],[[4],[5],[6]],[[7],[8],[9]]]\<rparr> (nat 1))) < 5 \<and>
   patch_extractor \<lparr>height = 3, width = 3, depth = 1, cells = [[[1::nat],[2],[3]],[[4],[5],[6]],[[7],[8],[9]]]\<rparr> 5 1 [3, 0] = Inl ValueError \<and>
   wf_arr2 \<lparr>nrows = 3, ncols = 3, rowsof = [[False,False,False],[False,False,False],[False,False,False]]\<rparr> \<and> list_all (list_all Not) (rowsof \<lparr>nrows = 3, ncols = 3, rowsof = [[False,False,False],[False,False,False],[False,False,False]]\<rparr>) \<and> (0::int) < 1 \<and>
   (\<exists>e. patch_extractor_with_mask \<lparr>height = 3, width = 3, depth = 1, cells = [[[1::nat],[2],[3]],[[4],[5],[6]],[[7],[8],[9]]]\<rparr> \<lparr>nrows = 3, ncols = 3, rowsof = [[False,False,False],[False,False,False],[False,False,False]]\<rparr> 1 1 [3, 0] = Inl e)"
proof -
  have h1: "valid_anchors_with_mask \<lparr>height = 3, width = 3, depth = 1, cells = [[[1::nat],[2],[3]],[[4],[5],[6]],[[7],[8],[9]]]\<rparr> \<lparr>nrows = 3, ncols = 3, rowsof = [[True,True,True],[True,True,True],[False,True,True]]\<rparr> (nat 1) = Inr [(0, 0), (0, 1), (1, 0), (1, 1)]"
    by code_simp
  have h2: "is_sample (length [(0, 0), (0, 1), (1, 0), (1::nat, 1::nat)]) (nat 2) [3, 0]"
    by code_simp
  have h3: "sampled_anchors_with_mask \<lparr>height = 3, width = 3, depth = 1, cells = [[[1::nat],[2],[3]],[[4],[5],[6]],[[7],[8],[9]]]\<rparr> \<lparr>nrows = 3, ncols = 3, rowsof = [[True,True,True],[True,True,True],[False,True,True]]\<rparr> 2 1 [3, 0] = Inr [(1, 1), (0, 0)]"
    by code_simp
  have h4: "is_sample (length (valid_anchors \<lparr>height = 3, width = 3, depth = 1, cells = [[[1::nat],[2],[3]],[[4],[5],[6]],[[7],[8],[9]]]\<rparr> (nat 1))) (nat 2) [3, 0]"
    by code_simp
  have h5: "sampled_anchors \<lparr>height = 3, width = 3, depth = 1, cells = [[[1::nat],[2],[3]],[[4],[5],[6]],[[7],[8],[9]]]\<rparr> 2 1 [3, 0] = Inr [(1, 1), (0, 0)]"
    by code_simp
  have h6: "int (length [(0, 0), (0, 1), (1, 0), (1::nat, 1::nat)]) < 5" by simp
  have h7: "int (length (valid_anchors \<lparr>height = 3, width = 3, depth = 1, cells = [[[1::nat],[2],[3]],[[4],[5],[6]],[[7],[8],[9]]]\<rparr> (nat 1))) < 5"
    by code_simp
  have h8: "wf_arr2 \<lparr>nrows = 3, ncols = 3, rowsof = [[False,False,False],[False,False,False],[False,False,False]]\<rparr> \<and> list_all (list_all Not) (rowsof \<lparr>nrows = 3, ncols = 3, rowsof = [[False,False,False],[False,False,False],[False,False,False]]\<rparr>) \<and> (0::int) < 1"
    by code_simp
  note a = sampling_without_replacement
      [of "\<lparr>height = 3, width = 3, depth = 1, cells = [[[1::nat],[2],[3]],[[4],[5],[6]],[[7],[8],[9]]]\<rparr>" "\<lparr>nrows = 3, ncols = 3, rowsof = [[True,True,True],[True,True,True],[False,True,True]]\<rparr>" 1 "[(0, 0), (0, 1), (1, 0), (1, 1)]" 2 "[3, 0]" "[(1, 1), (0, 0)]" "[(1, 1), (0, 0)]"]
  note b = sampling_without_replacement
      [of "\<lparr>height = 3, width = 3, depth = 1, cells = [[[1::nat],[2],[3]],[[4],[5],[6]],[[7],[8],[9]]]\<rparr>" "\<lparr>nrows = 3, ncols = 3, rowsof = [[True,True,True],[True,True,True],[False,True,True]]\<rparr>" 1 "[(0, 0), (0, 1), (1, 0), (1, 1)]" 5 "[3, 0]" "[]" "[]"]
  note c = sampling_without_replacement
      [of "\<lparr>height = 3, width = 3, depth = 1, cells = [[[1::nat],[2],[3]],[[4],[5],[6]],[[7],[8],[9]]]\<rparr>" "\<lparr>nrows = 3, ncols = 3, rowsof = [[False,False,False],[False,False,False],[False,False,False]]\<rparr>" 1 "[]" 1 "[3, 0]" "[]" "[]"]
  from a h1 h2 h3 have c1: "distinct [(1, 1), (0::nat, 0::nat)]" by blast
  from b h1 h6 have c2: "patch_extractor_with_mask \<lparr>height = 3, width = 3, depth = 1, cells = [[[1::nat],[2],[3]],[[4],[5],[6]],[[7],[8],[9]]]\<rparr> \<lparr>nrows = 3, ncols = 3, rowsof = [[True,True,True],[True,True,True],[False,True,True]]\<rparr> 5 1 [3, 0] = Inl ValueError" by blast
  from b h7 have c3: "patch_extractor \<lparr>height = 3, width = 3, depth = 1, cells = [[[1::nat],[2],[3]],[[4],[5],[6]],[[7],[8],[9]]]\<rparr> 5 1 [3, 0] = Inl ValueError" by blast
  from c h8 have c4: "\<exists>e. patch_extractor_with_mask \<lparr>height = 3, width = 3, depth = 1, cells = [[[1::nat],[2],[3]],[[4],[5],[6]],[[7],[8],[9]]]\<rparr> \<lparr>nrows = 3, ncols = 3, rowsof = [[False,False,False],[False,False,False],[False,False,False]]\<rparr> 1 1 [3, 0] = Inl e" by blast
  from h1 h2 h3 h4 h5 h6 h7 h8 c1 c2 c3 c4 show ?thesis by blast
qed

text \<open>
  C3 as stated fails for \<open>patch_size = 0\<close>: the mask window of every anchor is
  empty, \<open>np.all\<close> of it is true, so all nine anchors of a 3 by 3 image are
  valid under a mask that is false everywhere, and the call for one patch
  returns (an empty patch).
\<close>

theorem sampling_without_replacement_counterexample:
  "list_all (list_all Not) (rowsof \<lparr>nrows = 3, ncols = 3, rowsof = [[False,False,False],[False,False,False],[False,False,False]]\<rparr>) \<and>
   valid_anchors_with_mask \<lparr>height = 3, width = 3, depth = 1, cells = [[[1::nat],[2],[3]],[[4],[5],[6]],[[7],[8],[9]]]\<rparr> \<lparr>nrows = 3, ncols = 3, rowsof = [[False,False,False],[False,False,False],[False,False,False]]\<rparr> (nat 0) =
     Inr [(0, 0), (0, 1), (0, 2), (1, 0), (1, 1), (1, 2), (2, 0), (2, 1), (2, 2)] \<and>
   is_sample 9 (nat 1) [4] \<and>
   patch_extractor_with_mask \<lparr>height = 3, width = 3, depth = 1, cells = [[[1::nat],[2],[3]],[[4],[5],[6]],[[7],[8],[9]]]\<rparr> \<lparr>nrows = 3, ncols = 3, rowsof = [[False,False,False],[False,False,False],[False,False,False]]\<rparr> 1 0 [4] = Inr [[]]"
  by code_simp

theorem scan_excludes_last_anchors_witness:
  "valid_anchors_with_mask \<lparr>height = 3, width = 3, depth = 1, cells = [[[1::nat],[2],[3]],[[4],[5],[6]],[[7],[8],[9]]]\<rparr> \<lparr>nrows = 3, ncols = 3, rowsof = [[True,True,True],[True,True,True],[False,True,True]]\<rparr> 1 = Inr [(0, 0), (0, 1), (1, 0), (1, 1)] \<and>
   (1, 1) \<in> set [(0, 0), (0, 1), (1, 0), (1::nat, 1::nat)] \<and>
   sampled_anchors_with_mask \<lparr>height = 3, width = 3, depth = 1, cells = [[[1::nat],[2],[3]],[[4],[5],[6]],[[7],[8],[9]]]\<rparr> \<lparr>nrows = 3, ncols = 3, rowsof = [[True,True,True],[True,True,True],[False,True,True]]\<rparr> 2 1 [3, 0] = Inr [(1, 1), (0, 0)] \<and>
   (1, 1) \<in> set [(1, 1), (0::nat, 0::nat)] \<and>
   (1::nat) + 1 < height \<lparr>height = 3, width = 3, depth = 1, cells = [[[1::nat],[2],[3]],[[4],[5],[6]],[[7],[8],[9]]]\<rparr> \<and> (1::nat) + 1 < width \<lparr>height = 3, width = 3, depth = 1, cells = [[[1::nat],[2],[3]],[[4],[5],[6]],[[7],[8],[9]]]\<rparr> \<and>
   (1::nat) + nat 1 < height \<lparr>height = 3, width = 3, depth = 1, cells = [[[1::nat],[2],[3]],[[4],[5],[6]],[[7],[8],[9]]]\<rparr> \<and> (1::nat) + nat 1 < width \<lparr>height = 3, width = 3, depth = 1, cells = [[[1::nat],[2],[3]],[[4],[5],[6]],[[7],[8],[9]]]\<rparr>"
proof -
  have h1: "valid_anchors_with_mask \<lparr>height = 3, width = 3, depth = 1, cells = [[[1::nat],[2],[3]],[[4],[5],[6]],[[7],[8],[9]]]\<rparr> \<lparr>nrows = 3, ncols = 3, rowsof = [[True,True,True],[True,True,True],[False,True,True]]\<rparr> 1 = Inr [(0, 0), (0, 1), (1, 0), (1, 1)]"
    by code_simp
  have h2: "(1, 1) \<in> set [(0, 0), (0, 1), (1, 0), (1::nat, 1::nat)]" by simp
  have h3: "sampled_anchors_with_mask \<lparr>height = 3, width = 3, depth = 1, cells = [[[1::nat],[2],[3]],[[4],[5],[6]],[[7],[8],[9]]]\<rparr> \<lparr>nrows = 3, ncols = 3, rowsof = [[True,True,True],[True,True,True],[False,True,True]]\<rparr> 2 1 [3, 0] = Inr [(1, 1), (0, 0)]"
    by code_simp
  have h4: "(1, 1) \<in> set [(1, 1), (0::nat, 0::nat)]" by simp
  note a = scan_excludes_last_anchors
      [of "\<lparr>height = 3, width = 3, depth = 1, cells = [[[1::nat],[2],[3]],[[4],[5],[6]],[[7],[8],[9]]]\<rparr>" "\<lparr>nrows = 3, ncols = 3, rowsof = [[True,True,True],[True,True,True],[False,True,True]]\<rparr>" 1 "[(0, 0), (0, 1), (1, 0), (1, 1)]" 1 1 2 1 "[3, 0]" "[(1, 1), (0, 0)]"]
  from a h1 h2 have c1: "(1::nat) + 1 < height \<lparr>height = 3, width = 3, depth = 1, cells = [[[1::nat],[2],[3]],[[4],[5],[6]],[[7],[8],[9]]]\<rparr> \<and> (1::nat) + 1 < width \<lparr>height = 3, width = 3, depth = 1, cells = [[[1::nat],[2],[3]],[[4],[5],[6]],[[7],[8],[9]]]\<rparr>" by blast
  from a h3 h4 have c2: "(1::nat) + nat 1 < height \<lparr>height = 3, width = 3, depth = 1, cells = [[[1::nat],[2],[3]],[[4],[5],[6]],[[7],[8],[9]]]\<rparr> \<and> (1::nat) + nat 1 < width \<lparr>height = 3, width = 3, depth = 1, cells = [[[1::nat],[2],[3]],[[4],[5],[6]],[[7],[8],[9]]]\<rparr>" by blast
  from h1 h2 h3 h4 c1 c2 show ?thesis by blast
qed

section \<open>Properties of band resampling\<close>

lemma length_scatter: "length (scatter ms out vals) = length out"
  by (induction ms out vals rule: scatter.induct) (auto split: list.splits)

lemma scatter_nth_False:
  "p < length out \<Longrightarrow> p < length ms \<Longrightarrow> \<not> ms ! p \<Longrightarrow> scatter ms out vals ! p = out ! p"
proof (induction ms out vals arbitrary: p rule: scatter.induct)
  case (1 m ms x out vals)
  then show ?case
    by (cases p) (auto split: list.splits)
qed auto

lemma set_scatter: "set (scatter ms out vals) \<subseteq> set out \<union> set vals"
proof (induction ms out vals rule: scatter.induct)
  case (1 m ms x out vals)
  then show ?case
    by (cases m; cases vals) auto
qed auto

lemma length_concat_rect:
  "list_all (\<lambda>r. length r = w) g \<Longrightarrow> length (concat g) = length g * w"
  by (induction g) auto

lemma concat_nth_rect:
  "list_all (\<lambda>r. length r = w) g \<Longrightarrow> i < length g \<Longrightarrow> j < w \<Longrightarrow>
     concat g ! (i * w + j) = g ! i ! j"
proof (induction g arbitrary: i)
  case Nil
  then show ?case by simp
next
  case (Cons r g)
  show ?case
  proof (cases i)
    case 0
    with Cons.prems show ?thesis by (simp add: nth_append)
  next
    case (Suc k)
    with Cons.prems have "concat g ! (k * w + j) = g ! k ! j"
      by (intro Cons.IH) auto
    with Suc Cons.prems show ?thesis
      by (simp add: nth_append add.assoc)
  qed
qed

lemma flat_index_bound: "i < h \<Longrightarrow> j < w \<Longrightarrow> i * w + j < h * (w::nat)"
proof -
  assume a: "i < h" "j < w"
  then have "i * w + j < i * w + w" by simp
  also have "\<dots> = Suc i * w" by simp
  also from a have "\<dots> \<le> h * w" by (intro mult_le_mono1) simp
  finally show ?thesis .
qed

lemma reshape3_nth:
  assumes "length xs = h * w" "i < h" "j < w"
  shows "reshape3 h w xs ! i ! j = xs ! (i * w + j)"
  using assms flat_index_bound[OF assms(2,3)] by (simp add: reshape3_def)

lemma reshape3_row_length:
  assumes "length xs = h * w" "i < h"
  shows "length (take w (drop (i * w) xs)) = w"
proof -
  from assms(2) have "Suc i * w \<le> h * w" by (intro mult_le_mono1) simp
  then have "w \<le> h * w - i * w" by simp
  with assms(1) show ?thesis by simp
qed

lemma wf_reshape3:
  assumes "length xs = h * w" "\<forall>v \<in> set xs. length v = n"
  shows "wf_cube \<lparr>height = h, width = w, depth = n, cells = reshape3 h w xs\<rparr>"
proof -
  have "\<forall>r \<in> set (reshape3 h w xs). length r = w \<and> (\<forall>p \<in> set r. length p = n)"
  proof
    fix r assume "r \<in> set (reshape3 h w xs)"
    then obtain i where i: "i < h" and r: "r = take w (drop (i * w) xs)"
      by (auto simp: reshape3_def)
    have "set r \<subseteq> set xs"
      unfolding r by (meson set_take_subset set_drop_subset subset_trans)
    with assms(2) reshape3_row_length[OF assms(1) i] r
    show "length r = w \<and> (\<forall>p \<in> set r. length p = n)" by auto
  qed
  then show ?thesis
    by (simp add: wf_cube_def list_all_iff reshape3_def)
qed

lemma finish_cube_Inr:
  assumes "finish_cube h w n k out = Inr c"
  shows "height c = h" "width c = w" "depth c = n"
    "cells c = reshape3 h w (map (map (\<lambda>v. if isnan v then Num 0 else v)) out)"
  using assms by (auto simp: finish_cube_def split: if_splits)

lemma wf_finish_cube:
  assumes "length out = h * w" "\<forall>v \<in> set out. length v = n"
  shows "\<exists>c. finish_cube h w n n out = Inr c \<and> wf_cube c \<and>
           height c = h \<and> width c = w \<and> depth c = n"
proof -
  let ?out = "map (map (\<lambda>v. if isnan v then Num 0 else v)) out"
  from assms have "length ?out = h * w" "\<forall>v \<in> set ?out. length v = n" by auto
  from wf_reshape3[OF this] show ?thesis
    by (simp add: finish_cube_def)
qed


lemma band_resample_masked_Inr:
  assumes "band_resample_hsi_cube BandResampler data bands1 bands2 fwhm1 fwhm2 (Some mk) = Inr out"
  shows "length (concat (rowsof mk)) = height data * width data \<and>
         (\<exists>vals. finish_cube (height data) (width data) (length bands2) (length bands2)
            (scatter (concat (rowsof mk))
               (replicate (height data * width data) (replicate (length bands2) (Num 0))) vals)
            = Inr out)"
proof (cases "BandResampler bands1 bands2 fwhm1 fwhm2")
  case (Inl e)
  with assms show ?thesis by (simp add: band_resample_hsi_cube_def)
next
  case (Inr m)
  with assms have d: "depth data \<noteq> 0"
    by (simp add: band_resample_hsi_cube_def split: if_splits)
  with assms Inr have len: "length (concat (rowsof mk)) = height data * width data"
    by (simp add: band_resample_hsi_cube_def Let_def split: if_splits)
  with assms Inr d have
    "finish_cube (height data) (width data) (length bands2) (length bands2)
       (scatter (concat (rowsof mk))
          (replicate (height data * width data) (replicate (length bands2) (Num 0)))
          (map (broadcast (length bands2))
             (dot_T m (map fst (filter snd (zip (concat (cells data)) (concat (rowsof mk))))))))
     = Inr out"
    by (simp add: band_resample_hsi_cube_def Let_def split: if_splits)
  with len show ?thesis by blast
qed

text \<open>
  C4. When \<open>band_resample_hsi_cube\<close> is called with a mask of the cube's
  spatial shape and returns, the output spectrum is zero in every band at
  every pixel where the mask is false.
\<close>

theorem masked_resample_zero_outside_mask:
  assumes "band_resample_hsi_cube BandResampler data bands1 bands2 fwhm1 fwhm2 (Some mk) = Inr out"
    and "wf_arr2 mk" "nrows mk = height data" "ncols mk = width data"
  shows "\<forall>i < height data. \<forall>j < width data.
           \<not> rowsof mk ! i ! j \<longrightarrow> cells out ! i ! j = replicate (length bands2) (Num 0)"
proof (intro allI impI)
  fix i j
  assume i: "i < height data" and j: "j < width data" and f: "\<not> rowsof mk ! i ! j"
  let ?h = "height data" and ?w = "width data" and ?n = "length bands2"
  let ?mk = "concat (rowsof mk)"
  let ?p = "i * ?w + j"
  from band_resample_masked_Inr[OF assms(1)] obtain vals where
    fc: "finish_cube ?h ?w ?n ?n
           (scatter ?mk (replicate (?h * ?w) (replicate ?n (Num 0))) vals) = Inr out"
    and len: "length ?mk = ?h * ?w"
    by blast
  let ?sc = "scatter ?mk (replicate (?h * ?w) (replicate ?n (Num 0))) vals"
  have p: "?p < ?h * ?w" using i j by (rule flat_index_bound)
  from assms(2-4) i j have "?mk ! ?p = rowsof mk ! i ! j"
    by (intro concat_nth_rect) (auto simp: wf_arr2_def)
  with f have "\<not> ?mk ! ?p" by simp
  with p len have sc: "?sc ! ?p = replicate ?n (Num 0)"
    by (simp add: scatter_nth_False)
  have "cells out ! i ! j = map (map (\<lambda>v. if isnan v then Num 0 else v)) ?sc ! ?p"
    unfolding finish_cube_Inr(4)[OF fc] using i j
    by (intro reshape3_nth) (auto simp: length_scatter)
  also have "\<dots> = replicate ?n (Num 0)"
    using p sc by (simp add: length_scatter)
  finally show "cells out ! i ! j = replicate ?n (Num 0)" .
qed

lemma dot_T_rows:
  "length (dot_T m d) = length d" "\<forall>v \<in> set (dot_T m d). length v = length (rowsof m)"
  by (auto simp: dot_T_def)

text \<open>
  C8 (as amended). For a cube with at least one band, a resampling matrix
  with one row for every target band centre and one column for every band of
  the cube, and no mask or a mask of the cube's spatial shape,
  \<open>band_resample_hsi_cube\<close> returns a cube with as many bands as target band
  centres and the spatial dimensions of the input.
\<close>

theorem resample_shape:
  assumes "wf_cube data" "0 < depth data" "length bands1 = depth data"
    and "BandResampler bands1 bands2 fwhm1 fwhm2 = Inr m"
    and "wf_arr2 m" "nrows m = length bands2" "ncols m = length bands1"
    and "case msk of None \<Rightarrow> True
         | Some mk \<Rightarrow> wf_arr2 mk \<and> nrows mk = height data \<and> ncols mk = width data"
  shows "\<exists>out. band_resample_hsi_cube BandResampler data bands1 bands2 fwhm1 fwhm2 msk = Inr out \<and>
           wf_cube out \<and> depth out = length bands2 \<and>
           height out = height data \<and> width out = width data"
proof -
  let ?h = "height data" and ?w = "width data" and ?n = "length bands2"
  let ?px = "concat (cells data)"
  note m = assms(4)
  from assms(3,7) have mc: "ncols m = depth data" by simp
  from assms(2) have d: "depth data \<noteq> 0" by simp
  from assms(1) have "list_all (\<lambda>r. length r = ?w) (cells data)"
    by (auto simp: wf_cube_def list_all_iff)
  from length_concat_rect[OF this] assms(1) have lpx: "length ?px = ?h * ?w"
    by (simp add: wf_cube_def)
  from assms(5,6) have rm: "length (rowsof m) = ?n" by (simp add: wf_arr2_def)
  show ?thesis
  proof (cases msk)
    case None
    have l: "length (dot_T m ?px) = ?h * ?w" by (simp add: dot_T_rows lpx)
    have r: "\<forall>v \<in> set (dot_T m ?px). length v = ?n" by (simp add: dot_T_rows rm)
    have e: "band_resample_hsi_cube BandResampler data bands1 bands2 fwhm1 fwhm2 msk
             = finish_cube ?h ?w ?n ?n (dot_T m ?px)"
      by (simp add: band_resample_hsi_cube_def Let_def None m d mc assms(6))
    from wf_finish_cube[OF l r] show ?thesis unfolding e by blast
  next
    case (Some mk)
    with assms(8) have wfk: "wf_arr2 mk" and kr: "nrows mk = ?h" and kc: "ncols mk = ?w"
      by simp_all
    from wfk kc have "list_all (\<lambda>r. length r = ?w) (rowsof mk)"
      by (simp add: wf_arr2_def)
    from length_concat_rect[OF this] wfk kr have lmk: "length (concat (rowsof mk)) = ?h * ?w"
      by (simp add: wf_arr2_def)
    let ?vals = "map (broadcast ?n) (dot_T m (map fst (filter snd (zip ?px (concat (rowsof mk))))))"
    let ?sc = "scatter (concat (rowsof mk)) (replicate (?h * ?w) (replicate ?n (Num 0))) ?vals"
    have v: "\<forall>v \<in> set ?vals. length v = ?n"
      using rm by (auto simp: dot_T_def broadcast_def)
    have r: "\<forall>v \<in> set ?sc. length v = ?n"
    proof
      fix x assume "x \<in> set ?sc"
      with set_scatter[of "concat (rowsof mk)" "replicate (?h * ?w) (replicate ?n (Num 0))" ?vals]
      have "x \<in> set (replicate (?h * ?w) (replicate ?n (Num 0))) \<or> x \<in> set ?vals" by blast
      with v show "length x = ?n" by auto
    qed
    have l: "length ?sc = ?h * ?w" by (simp add: length_scatter)
    have e: "band_resample_hsi_cube BandResampler data bands1 bands2 fwhm1 fwhm2 msk
             = finish_cube ?h ?w ?n ?n ?sc"
      by (simp add: band_resample_hsi_cube_def Let_def Some m d mc assms(6) lmk)
    from wf_finish_cube[OF l r] show ?thesis unfolding e by blast
  qed
qed

theorem masked_resample_zero_outside_mask_witness:
  "band_resample_hsi_cube (\<lambda>b1 b2 f1 f2. Inr \<lparr>nrows = 1, ncols = 2, rowsof = [[Num 1, Num 1]]\<rparr>) \<lparr>height = 2, width = 2, depth = 2, cells = [[[Num 1, Num 3], [Num 2, Num 4]], [[Num 5, Num 5], [Num 0, Num 8]]]\<rparr> [Num 1, Num 2] [Num 3] [Num 1, Num 1] [Num 2] (Some \<lparr>nrows = 2, ncols = 2, rowsof = [[True, False], [False, True]]\<rparr>) = Inr \<lparr>height = 2, width = 2, depth = 1, cells = [[[Num 4], [Num 0]], [[Num 0], [Num 8]]]\<rparr> \<and>
   wf_arr2 \<lparr>nrows = 2, ncols = 2, rowsof = [[True, False], [False, True]]\<rparr> \<and> nrows \<lparr>nrows = 2, ncols = 2, rowsof = [[True, False], [False, True]]\<rparr> = height \<lparr>height = 2, width = 2, depth = 2, cells = [[[Num 1, Num 3], [Num 2, Num 4]], [[Num 5, Num 5], [Num 0, Num 8]]]\<rparr> \<and> ncols \<lparr>nrows = 2, ncols = 2, rowsof = [[True, False], [False, True]]\<rparr> = width \<lparr>height = 2, width = 2, depth = 2, cells = [[[Num 1, Num 3], [Num 2, Num 4]], [[Num 5, Num 5], [Num 0, Num 8]]]\<rparr> \<and>
   (0::nat) < height \<lparr>height = 2, width = 2, depth = 2, cells = [[[Num 1, Num 3], [Num 2, Num 4]], [[Num 5, Num 5], [Num 0, Num 8]]]\<rparr> \<and> (1::nat) < width \<lparr>height = 2, width = 2, depth = 2, cells = [[[Num 1, Num 3], [Num 2, Num 4]], [[Num 5, Num 5], [Num 0, Num 8]]]\<rparr> \<and> \<not> rowsof \<lparr>nrows = 2, ncols = 2, rowsof = [[True, False], [False, True]]\<rparr> ! 0 ! 1 \<and>
   cells \<lparr>height = 2, width = 2, depth = 1, cells = [[[Num 4], [Num 0]], [[Num 0], [Num 8]]]\<rparr> ! 0 ! 1 = replicate (length [Num 3]) (Num 0)"
proof -
  have h1: "band_resample_hsi_cube (\<lambda>b1 b2 f1 f2. Inr \<lparr>nrows = 1, ncols = 2, rowsof = [[Num 1, Num 1]]\<rparr>) \<lparr>height = 2, width = 2, depth = 2, cells = [[[Num 1, Num 3], [Num 2, Num 4]], [[Num 5, Num 5], [Num 0, Num 8]]]\<rparr> [Num 1, Num 2] [Num 3] [Num 1, Num 1] [Num 2] (Some \<lparr>nrows = 2, ncols = 2, rowsof = [[True, False], [False, True]]\<rparr>) = Inr \<lparr>height = 2, width = 2, depth = 1, cells = [[[Num 4], [Num 0]], [[Num 0], [Num 8]]]\<rparr>"
    by code_simp
  have h2: "wf_arr2 \<lparr>nrows = 2, ncols = 2, rowsof = [[True, False], [False, True]]\<rparr>" by code_simp
  have h3: "nrows \<lparr>nrows = 2, ncols = 2, rowsof = [[True, False], [False, True]]\<rparr> = height \<lparr>height = 2, width = 2, depth = 2, cells = [[[Num 1, Num 3], [Num 2, Num 4]], [[Num 5, Num 5], [Num 0, Num 8]]]\<rparr>" by simp
  have h4: "ncols \<lparr>nrows = 2, ncols = 2, rowsof = [[True, False], [False, True]]\<rparr> = width \<lparr>height = 2, width = 2, depth = 2, cells = [[[Num 1, Num 3], [Num 2, Num 4]], [[Num 5, Num 5], [Num 0, Num 8]]]\<rparr>" by simp
  note c = masked_resample_zero_outside_mask
    [of "(\<lambda>b1 b2 f1 f2. Inr \<lparr>nrows = 1, ncols = 2, rowsof = [[Num 1, Num 1]]\<rparr>)" "\<lparr>height = 2, width = 2, depth = 2, cells = [[[Num 1, Num 3], [Num 2, Num 4]], [[Num 5, Num 5], [Num 0, Num 8]]]\<rparr>" "[Num 1, Num 2]" "[Num 3]" "[Num 1, Num 1]" "[Num 2]" "\<lparr>nrows = 2, ncols = 2, rowsof = [[True, False], [False, True]]\<rparr>" "\<lparr>height = 2, width = 2, depth = 1, cells = [[[Num 4], [Num 0]], [[Num 0], [Num 8]]]\<rparr>", OF h1 h2 h3 h4]
  have h5: "(0::nat) < height \<lparr>height = 2, width = 2, depth = 2, cells = [[[Num 1, Num 3], [Num 2, Num 4]], [[Num 5, Num 5], [Num 0, Num 8]]]\<rparr>" by simp
  have h6: "(1::nat) < width \<lparr>height = 2, width = 2, depth = 2, cells = [[[Num 1, Num 3], [Num 2, Num 4]], [[Num 5, Num 5], [Num 0, Num 8]]]\<rparr>" by simp
  have h7: "\<not> rowsof \<lparr>nrows = 2, ncols = 2, rowsof = [[True, False], [False, True]]\<rparr> ! 0 ! 1" by simp
  note d = c[rule_format, OF h5 h6 h7]
  show ?thesis
    by (rule conjI[OF h1 conjI[OF h2 conjI[OF h3 conjI[OF h4 conjI[OF h5 conjI[OF h6 conjI[OF h7 d]]]]]]])
qed

theorem resample_shape_witness:
  "wf_cube \<lparr>height = 2, width = 2, depth = 2, cells = [[[Num 1, Num 3], [Num 2, Num 4]], [[Num 5, Num 5], [Num 0, Num 8]]]\<rparr> \<and> 0 < depth \<lparr>height = 2, width = 2, depth = 2, cells = [[[Num 1, Num 3], [Num 2, Num 4]], [[Num 5, Num 5], [Num 0, Num 8]]]\<rparr> \<and> length [Num 1, Num 2] = depth \<lparr>height = 2, width = 2, depth = 2, cells = [[[Num 1, Num 3], [Num 2, Num 4]], [[Num 5, Num 5], [Num 0, Num 8]]]\<rparr> \<and>
   (\<lambda>b1 b2 f1 f2. Inr \<lparr>nrows = 1, ncols = 2, rowsof = [[Num 1, Num 1]]\<rparr>) [Num 1, Num 2] [Num 3] [Num 1, Num 1] [Num 2] = (Inr \<lparr>nrows = 1, ncols = 2, rowsof = [[Num 1, Num 1]]\<rparr> :: error + npfloat arr2) \<and>
   wf_arr2 \<lparr>nrows = 1, ncols = 2, rowsof = [[Num 1, Num 1]]\<rparr> \<and> nrows \<lparr>nrows = 1, ncols = 2, rowsof = [[Num 1, Num 1]]\<rparr> = length [Num 3] \<and> ncols \<lparr>nrows = 1, ncols = 2, rowsof = [[Num 1, Num 1]]\<rparr> = length [Num 1, Num 2] \<and>
   (case Some \<lparr>nrows = 2, ncols = 2, rowsof = [[True, False], [False, True]]\<rparr> of None \<Rightarrow> True
    | Some mk \<Rightarrow> wf_arr2 mk \<and> nrows mk = height \<lparr>height = 2, width = 2, depth = 2, cells = [[[Num 1, Num 3], [Num 2, Num 4]], [[Num 5, Num 5], [Num 0, Num 8]]]\<rparr> \<and> ncols mk = width \<lparr>height = 2, width = 2, depth = 2, cells = [[[Num 1, Num 3], [Num 2, Num 4]], [[Num 5, Num 5], [Num 0, Num 8]]]\<rparr>) \<and>
   (\<exists>out. band_resample_hsi_cube (\<lambda>b1 b2 f1 f2. Inr \<lparr>nrows = 1, ncols = 2, rowsof = [[Num 1, Num 1]]\<rparr>) \<lparr>height = 2, width = 2, depth = 2, cells = [[[Num 1, Num 3], [Num 2, Num 4]], [[Num 5, Num 5], [Num 0, Num 8]]]\<rparr> [Num 1, Num 2] [Num 3] [Num 1, Num 1] [Num 2] (Some \<lparr>nrows = 2, ncols = 2, rowsof = [[True, False], [False, True]]\<rparr>) = Inr out \<and>
      wf_cube out \<and> depth out = length [Num 3] \<and> height out = height \<lparr>height = 2, width = 2, depth = 2, cells = [[[Num 1, Num 3], [Num 2, Num 4]], [[Num 5, Num 5], [Num 0, Num 8]]]\<rparr> \<and> width out = width \<lparr>height = 2, width = 2, depth = 2, cells = [[[Num 1, Num 3], [Num 2, Num 4]], [[Num 5, Num 5], [Num 0, Num 8]]]\<rparr>)"
proof -
  have h1: "wf_cube \<lparr>height = 2, width = 2, depth = 2, cells = [[[Num 1, Num 3], [Num 2, Num 4]], [[Num 5, Num 5], [Num 0, Num 8]]]\<rparr>" by code_simp
  have h2: "0 < depth \<lparr>height = 2, width = 2, depth = 2, cells = [[[Num 1, Num 3], [Num 2, Num 4]], [[Num 5, Num 5], [Num 0, Num 8]]]\<rparr>" by simp
  have h3: "length [Num 1, Num 2] = depth \<lparr>height = 2, width = 2, depth = 2, cells = [[[Num 1, Num 3], [Num 2, Num 4]], [[Num 5, Num 5], [Num 0, Num 8]]]\<rparr>" by simp
  have h4: "(\<lambda>b1 b2 f1 f2. Inr \<lparr>nrows = 1, ncols = 2, rowsof = [[Num 1, Num 1]]\<rparr>) [Num 1, Num 2] [Num 3] [Num 1, Num 1] [Num 2] = (Inr \<lparr>nrows = 1, ncols = 2, rowsof = [[Num 1, Num 1]]\<rparr> :: error + npfloat arr2)" by simp
  have h5: "wf_arr2 \<lparr>nrows = 1, ncols = 2, rowsof = [[Num 1, Num 1]]\<rparr>" by code_simp
  have h6: "nrows \<lparr>nrows = 1, ncols = 2, rowsof = [[Num 1, Num 1]]\<rparr> = length [Num 3]" by simp
  have h7: "ncols \<lparr>nrows = 1, ncols = 2, rowsof = [[Num 1, Num 1]]\<rparr> = length [Num 1, Num 2]" by simp
  have h8: "case Some \<lparr>nrows = 2, ncols = 2, rowsof = [[True, False], [False, True]]\<rparr> of None \<Rightarrow> True
    | Some mk \<Rightarrow> wf_arr2 mk \<and> nrows mk = height \<lparr>height = 2, width = 2, depth = 2, cells = [[[Num 1, Num 3], [Num 2, Num 4]], [[Num 5, Num 5], [Num 0, Num 8]]]\<rparr> \<and> ncols mk = width \<lparr>height = 2, width = 2, depth = 2, cells = [[[Num 1, Num 3], [Num 2, Num 4]], [[Num 5, Num 5], [Num 0, Num 8]]]\<rparr>"
    by code_simp
  note c = resample_shape
    [of "\<lparr>height = 2, width = 2, depth = 2, cells = [[[Num 1, Num 3], [Num 2, Num 4]], [[Num 5, Num 5], [Num 0, Num 8]]]\<rparr>" "[Num 1, Num 2]" "(\<lambda>b1 b2 f1 f2. Inr \<lparr>nrows = 1, ncols = 2, rowsof = [[Num 1, Num 1]]\<rparr>)" "[Num 3]" "[Num 1, Num 1]" "[Num 2]" "\<lparr>nrows = 1, ncols = 2, rowsof = [[Num 1, Num 1]]\<rparr>" "Some \<lparr>nrows = 2, ncols = 2, rowsof = [[True, False], [False, True]]\<rparr>", OF h1 h2 h3 h4 h5 h6 h7 h8]
  show ?thesis
    by (rule conjI[OF h1 conjI[OF h2 conjI[OF h3 conjI[OF h4 conjI[OF h5 conjI[OF h6 conjI[OF h7 conjI[OF h8 c]]]]]]]])
qed

text \<open>
  C8 as stated fails for a cube without bands: with empty band configurations
  and the empty matrix, every condition of the claim is met, yet
  \<open>data.reshape((-1, 0))\<close> raises ValueError and no cube is returned.
\<close>

theorem resample_shape_counterexample:
  "wf_cube \<lparr>height = 1, width = 1, depth = 0, cells = [[[] :: npfloat list]]\<rparr> \<and>
   length ([] :: npfloat list) = depth \<lparr>height = 1, width = 1, depth = 0, cells = [[[] :: npfloat list]]\<rparr> \<and>
   wf_arr2 \<lparr>nrows = 0, ncols = 0, rowsof = ([] :: npfloat list list)\<rparr> \<and>
   nrows \<lparr>nrows = 0, ncols = 0, rowsof = ([] :: npfloat list list)\<rparr> = length ([] :: npfloat list) \<and>
   ncols \<lparr>nrows = 0, ncols = 0, rowsof = ([] :: npfloat list list)\<rparr> = length ([] :: npfloat list) \<and>
   band_resample_hsi_cube
     (\<lambda>b1 b2 f1 f2. Inr \<lparr>nrows = 0, ncols = 0, rowsof = []\<rparr>)
     \<lparr>height = 1, width = 1, depth = 0, cells = [[[]]]\<rparr> [] [] [] [] None = Inl ValueError"
  by code_simp

section \<open>Properties of the Hyperion cube\<close>

lemma calIdx_nth: "k < 198 \<Longrightarrow> calIdx ! k = (if k < 50 then 7 + k else 26 + k)"
  by (auto simp: calIdx_def nth_append simp del: upt_rec_numeral)

lemma calIdx_length: "length calIdx = 198"
  by (simp add: calIdx_def del: upt_rec_numeral)

lemma calIdx_bound: "k \<in> set calIdx \<Longrightarrow> k < 224"
  by (auto simp: calIdx_def simp del: upt_rec_numeral)

lemma calIdx_Cons: "calIdx = calIdx ! 0 # tl calIdx"
proof -
  have "calIdx \<noteq> []" using calIdx_length by auto
  then show ?thesis by (simp add: hd_conv_nth[symmetric])
qed

lemma fit_band_same_shape:
  assumes "wf_arr2 img" "nrows img = h" "ncols img = w"
  shows "fit_band h w img = Inr (rowsof img)"
proof -
  from assms have "map (broadcast w) (rowsof img) = rowsof img"
    by (intro map_idI) (auto simp: wf_arr2_def list_all_iff broadcast_def)
  with assms show ?thesis
    by (simp add: fit_band_def broadcast_def wf_arr2_def)
qed

lemma load_bands_same_shape:
  assumes "\<forall>f \<in> set dataFN. wf_arr2 (snd f) \<and> nrows (snd f) = h \<and> ncols (snd f) = w"
    and "\<forall>k \<in> set ks. k < length dataFN"
  shows "load_bands dataFN h w ks = Inr (map (\<lambda>k. rowsof (snd (dataFN ! k))) ks)"
  using assms(2)
proof (induction ks)
  case Nil
  then show ?case by simp
next
  case (Cons k ks)
  then have k: "k < length dataFN" by simp
  with assms(1) have "fit_band h w (snd (dataFN ! k)) = Inr (rowsof (snd (dataFN ! k)))"
    by (intro fit_band_same_shape) auto
  with k Cons show ?case by (simp add: read_band_def)
qed

lemma stack_nth:
  "r < h \<Longrightarrow> c < w \<Longrightarrow> k < length bands \<Longrightarrow> stack h w bands ! r ! c ! k = bands ! k ! r ! c"
  by (simp add: stack_def)

lemma load_bands_length:
  "load_bands dataFN h w ks = Inr bs \<Longrightarrow> length bs = length ks"
  by (induction ks arbitrary: bs) (auto split: sum.splits)

text \<open>
  C7. Whenever \<open>read_hyperion_HSI_data\<close> returns, the cube has 198 bands.
  The files are taken in the order of their sorted paths, at the indices
  \<open>7, ..., 56, 76, ..., 223\<close>. With at least 224 files whose images all have
  \<open>h\<close> rows and \<open>w\<close> columns the call returns a cube of that height and
  width in which band \<open>k\<close> is the image at index \<open>7 + k\<close> divided by 40 for
  \<open>k < 50\<close>, and the image at index \<open>26 + k\<close> divided by 80 for the other 148
  bands.
\<close>

theorem hyperion_cube_bands:
  "(read_hyperion_HSI_data files = Inr out' \<longrightarrow> depth out' = 198)
   \<and> calIdx = [7 ..< 57] @ [76 ..< 224]
   \<and> sorted (map fst (sort_key fst files))
   \<and> (224 \<le> length files \<and>
       (\<forall>f \<in> set files. wf_arr2 (snd f) \<and> nrows (snd f) = h \<and> ncols (snd f) = w) \<longrightarrow>
       (\<exists>out. read_hyperion_HSI_data files = Inr out \<and>
          height out = h \<and> width out = w \<and> depth out = 198 \<and>
          (\<forall>r < h. \<forall>c < w. length (cells out ! r ! c) = 198 \<and>
             (\<forall>k < 198. cells out ! r ! c ! k =
                fl_div_const
                  (rowsof (snd (sort_key fst files ! (if k < 50 then 7 + k else 26 + k))) ! r ! c)
                  (if k < 50 then 40 else 80)))))"
proof (intro conjI impI)
  assume "read_hyperion_HSI_data files = Inr out'"
  then show "depth out' = 198"
    by (auto simp: read_hyperion_HSI_data_def Let_def split: sum.splits)
next
  show "calIdx = [7 ..< 57] @ [76 ..< 224]" by (rule calIdx_def)
next
  show "sorted (map fst (sort_key fst files))" by (rule sorted_sort_key)
next
  assume a: "224 \<le> length files \<and>
       (\<forall>f \<in> set files. wf_arr2 (snd f) \<and> nrows (snd f) = h \<and> ncols (snd f) = w)"
  let ?fn = "sort_key fst files"
  let ?band = "\<lambda>k. rowsof (snd (?fn ! k))"
  from a have len: "224 \<le> length ?fn"
    and sh: "\<forall>f \<in> set ?fn. wf_arr2 (snd f) \<and> nrows (snd f) = h \<and> ncols (snd f) = w"
    by simp_all
  have inb: "\<forall>k \<in> set calIdx. k < length ?fn"
    using calIdx_bound len by fastforce
  have "calIdx ! 0 < length ?fn" using len by (simp add: calIdx_nth)
  then have tmp: "read_band ?fn (calIdx ! 0) = Inr (snd (?fn ! (calIdx ! 0)))"
    by (simp add: read_band_def)
  let ?tmp = "snd (?fn ! (calIdx ! 0))"
  from sh \<open>calIdx ! 0 < length ?fn\<close> have tsh: "nrows ?tmp = h" "ncols ?tmp = w"
    using nth_mem by blast+
  have "\<forall>k \<in> set (tl calIdx). k < length ?fn"
    using inb by (metis calIdx_Cons list.set_intros(2))
  from load_bands_same_shape[OF sh this]
  have lb: "load_bands ?fn h w (tl calIdx) = Inr (map ?band (tl calIdx))" .
  have bands: "rowsof ?tmp # map ?band (tl calIdx) = map ?band calIdx"
    by (subst (3) calIdx_Cons) simp
  let ?cal = "map (\<lambda>(k, b). map (map (\<lambda>v. fl_div_const v (if k < 50 then 40 else 80))) b)
                (enumerate 0 (map ?band calIdx))"
  let ?out = "\<lparr>height = h, width = w, depth = 198, cells = stack h w ?cal\<rparr>"
  have res: "read_hyperion_HSI_data files = Inr ?out"
    by (simp add: read_hyperion_HSI_data_def Let_def tmp tsh lb bands del: sort_key_simps)
  have lc: "length ?cal = 198" by (simp add: calIdx_length)
  have "\<forall>r < h. \<forall>c < w. length (cells ?out ! r ! c) = (198::nat) \<and>
          (\<forall>k < 198. cells ?out ! r ! c ! k =
             fl_div_const (?band (if k < 50 then 7 + k else 26 + k) ! r ! c)
                          (if k < 50 then 40 else 80))"
  proof (intro allI impI conjI)
    fix r c assume rc: "r < h" "c < w"
    then show "length (cells ?out ! r ! c) = (198::nat)"
      by (simp add: stack_def calIdx_length)
    fix k :: nat assume k: "k < 198"
    let ?i = "if k < 50 then 7 + k else 26 + k"
    have i: "?i < length ?fn" using k len by auto
    with sh have wfb: "wf_arr2 (snd (?fn ! ?i))" "nrows (snd (?fn ! ?i)) = h" "ncols (snd (?fn ! ?i)) = w"
      using nth_mem by blast+
    then have r': "r < length (?band ?i)" using rc by (simp add: wf_arr2_def)
    with wfb have c': "c < length (?band ?i ! r)"
      using rc by (auto simp: wf_arr2_def list_all_iff)
    have ck: "?cal ! k = map (map (\<lambda>v. fl_div_const v (if k < 50 then 40 else 80))) (?band ?i)"
      using k by (simp add: nth_enumerate_eq calIdx_length calIdx_nth del: sort_key_simps)
    have "cells ?out ! r ! c ! k = ?cal ! k ! r ! c"
      using rc k lc by (simp add: stack_nth del: sort_key_simps)
    also have "\<dots> = fl_div_const (?band ?i ! r ! c) (if k < 50 then 40 else 80)"
      unfolding ck using r' c' by simp
    finally show "cells ?out ! r ! c ! k =
             fl_div_const (?band ?i ! r ! c) (if k < 50 then 40 else 80)" .
  qed
  with res show "\<exists>out. read_hyperion_HSI_data files = Inr out \<and>
          height out = h \<and> width out = w \<and> depth out = 198 \<and>
          (\<forall>r < h. \<forall>c < w. length (cells out ! r ! c) = 198 \<and>
             (\<forall>k < 198. cells out ! r ! c ! k =
                fl_div_const
                  (rowsof (snd (sort_key fst files ! (if k < 50 then 7 + k else 26 + k))) ! r ! c)
                  (if k < 50 then 40 else 80)))"
    by (intro exI[of _ ?out]) simp
qed


theorem hyperion_cube_bands_witness:
  "224 \<le> length (map (\<lambda>i. (replicate i CHR ''a'', \<lparr>nrows = 1, ncols = 1, rowsof = [[Num (real i)]]\<rparr>)) [0 ..< 224]) \<and>
   list_all (\<lambda>f. wf_arr2 (snd f) \<and> nrows (snd f) = 1 \<and> ncols (snd f) = 1) (map (\<lambda>i. (replicate i CHR ''a'', \<lparr>nrows = 1, ncols = 1, rowsof = [[Num (real i)]]\<rparr>)) [0 ..< 224]) \<and>
   (\<exists>out. read_hyperion_HSI_data (map (\<lambda>i. (replicate i CHR ''a'', \<lparr>nrows = 1, ncols = 1, rowsof = [[Num (real i)]]\<rparr>)) [0 ..< 224]) = Inr out \<and>
      height out = 1 \<and> width out = 1 \<and> depth out = 198 \<and>
      (\<forall>r < 1. \<forall>c < 1. length (cells out ! r ! c) = 198 \<and>
         (\<forall>k < 198. cells out ! r ! c ! k =
            fl_div_const
              (rowsof (snd (sort_key fst (map (\<lambda>i. (replicate i CHR ''a'', \<lparr>nrows = 1, ncols = 1, rowsof = [[Num (real i)]]\<rparr>)) [0 ..< 224]) ! (if k < 50 then 7 + k else 26 + k))) ! r ! c)
              (if k < 50 then 40 else 80))))"
proof -
  have h1: "224 \<le> length (map (\<lambda>i. (replicate i CHR ''a'', \<lparr>nrows = 1, ncols = 1, rowsof = [[Num (real i)]]\<rparr>)) [0 ..< 224])" by simp
  have h2: "\<forall>f \<in> set (map (\<lambda>i. (replicate i CHR ''a'', \<lparr>nrows = 1, ncols = 1, rowsof = [[Num (real i)]]\<rparr>)) [0 ..< 224]). wf_arr2 (snd f) \<and> nrows (snd f) = 1 \<and> ncols (snd f) = 1"
    by (simp add: wf_arr2_def del: upt_rec_numeral)
  then have h2': "list_all (\<lambda>f. wf_arr2 (snd f) \<and> nrows (snd f) = 1 \<and> ncols (snd f) = 1) (map (\<lambda>i. (replicate i CHR ''a'', \<lparr>nrows = 1, ncols = 1, rowsof = [[Num (real i)]]\<rparr>)) [0 ..< 224])"
    unfolding list_all_iff .
  note c = hyperion_cube_bands[of "(map (\<lambda>i. (replicate i CHR ''a'', \<lparr>nrows = 1, ncols = 1, rowsof = [[Num (real i)]]\<rparr>)) [0 ..< 224])" _ 1 1, THEN conjunct2, THEN conjunct2, THEN conjunct2,
      rule_format, OF conjI[OF h1 h2]]
  show ?thesis
    by (rule conjI[OF h1 conjI[OF h2' c]])
qed

section \<open>Properties of the split per class\<close>

lemma length_select_aux:
  "length xs = length ys \<Longrightarrow>
     length (filter snd (zip xs (map P ys))) = length (filter P ys)"
  by (induction xs ys rule: list_induct2) auto

lemma select_Inr:
  assumes "select X (map P y) = Inr Xi"
  shows "length X = length y" "length Xi = length (filter P y)"
  using assms length_select_aux[of X y P]
  by (auto simp: select_def split: if_splits)

lemma nth_filter_holds: "k < length (filter P xs) \<Longrightarrow> P (filter P xs ! k)"
  using nth_mem[of k "filter P xs"] by simp

lemma map_nth_class:
  assumes "\<forall>k \<in> set ks. k < length (filter (\<lambda>v. v = c) y)"
  shows "map (\<lambda>k. filter (\<lambda>v. v = c) y ! k) ks = replicate (length ks) c"
proof -
  have "\<forall>k \<in> set ks. filter (\<lambda>v. v = c) y ! k = c"
    using assms nth_filter_holds[of _ "\<lambda>v. v = c" y] by auto
  then show ?thesis
    by (induction ks) auto
qed

lemma count_as_filter: "count_list y c = length (filter (\<lambda>v. v = c) y)"
  by (induction y) auto

lemma per_class_loop_Inr:
  assumes "per_class_loop tts X y trs tes cs (A, B, C, D) = Inr (A', B', C', D')"
  shows "(\<forall>i \<in> set cs. \<exists>tr te. tts trs tes i (count_list y (int i)) = Inr (tr, te)) \<and>
         C' = C @ concat (map (\<lambda>i. replicate
                 (length (fst (case tts trs tes i (count_list y (int i)) of Inr p \<Rightarrow> p | Inl e \<Rightarrow> ([], [])))) (int i)) cs) \<and>
         D' = D @ concat (map (\<lambda>i. replicate
                 (length (snd (case tts trs tes i (count_list y (int i)) of Inr p \<Rightarrow> p | Inl e \<Rightarrow> ([], [])))) (int i)) cs) \<and>
         length A' + length C = length A + length C' \<and>
         length B' + length D = length B + length D'"
  using assms
proof (induction cs arbitrary: A B C D)
  case Nil
  then show ?case by simp
next
  case (Cons i cs)
  let ?yi = "filter (\<lambda>v. v = int i) y"
  from Cons.prems obtain Xi where Xi: "select X (map (\<lambda>v. v = int i) y) = Inr Xi"
    by (auto split: sum.splits)
  from select_Inr(2)[OF Xi] have n: "length Xi = count_list y (int i)"
    by (simp add: count_as_filter)
  from Cons.prems Xi obtain tr te where t: "tts trs tes i (length Xi) = Inr (tr, te)"
    by (auto split: sum.splits)
  from Cons.prems Xi t have nex: "\<not> list_ex (\<lambda>k. length Xi \<le> k) (tr @ te)"
    by (auto split: if_splits)
  then have inb: "\<forall>k \<in> set (tr @ te). k < length Xi"
    unfolding list_ex_iff by (meson not_le)
  from Cons.prems Xi t nex have rest:
    "per_class_loop tts X y trs tes cs
       (A @ map (\<lambda>k. Xi ! k) tr, B @ map (\<lambda>k. Xi ! k) te,
        C @ map (\<lambda>k. ?yi ! k) tr, D @ map (\<lambda>k. ?yi ! k) te) = Inr (A', B', C', D')"
    by simp
  from inb select_Inr(2)[OF Xi]
  have ctr: "map (\<lambda>k. ?yi ! k) tr = replicate (length tr) (int i)"
    and cte: "map (\<lambda>k. ?yi ! k) te = replicate (length te) (int i)"
    by (auto intro!: map_nth_class)
  from Cons.IH[OF rest] t show ?case
    by (simp add: n[symmetric] ctr cte)
qed

lemma sorted_class_runs:
  "sorted (concat (map (\<lambda>i. replicate (f i) (int i)) [0 ..< m]))"
  by (induction m) (auto simp: sorted_append)

lemma count_class_runs:
  "count_list (concat (map (\<lambda>i. replicate (f i) (int i)) [0 ..< m])) c =
     (if 0 \<le> c \<and> c < int m then f (nat c) else 0)"
proof -
  have rep: "\<And>n (a::int). count_list (replicate n a) c = (if a = c then n else 0)"
    subgoal for n a by (induction n) auto
    done
  have app: "\<And>xs ys :: int list. count_list (xs @ ys) c = count_list xs c + count_list ys c"
    subgoal for xs ys by (induction xs) auto
    done
  show ?thesis
    by (induction m) (auto simp: app rep)
qed

lemma split_size_le:
  assumes "is_split n p"
  shows "length (fst p) + length (snd p) \<le> n"
proof -
  from assms have d: "distinct (fst p @ snd p)" and s: "set (fst p @ snd p) \<subseteq> {..<n}"
    by (auto simp: is_split_def list_all_iff)
  have "length (fst p @ snd p) = card (set (fst p @ snd p))"
    using d by (simp only: distinct_card)
  also have "\<dots> \<le> card {..<n}" using s by (intro card_mono) auto
  finally show ?thesis by simp
qed

lemma bincount_absent:
  assumes "bincount y 0 = Inr counts" "\<not> (0 \<le> c \<and> c < int (length counts))"
  shows "count_list y c = 0"
proof (rule ccontr)
  assume "count_list y c \<noteq> 0"
  then have c: "c \<in> set y" by (metis count_notin)
  with assms(1) have "0 \<le> c" "y \<noteq> []" and len: "length counts = nat (Max (set y) + 1)"
    by (auto simp: bincount_def split: if_splits)
  moreover from c have "c \<le> Max (set y)" by simp
  ultimately show False using assms(2) by auto
qed


lemma select_value: "select X m = Inr Xi \<Longrightarrow> Xi = map fst (filter snd (zip X m))"
  by (auto simp: select_def split: if_splits)

lemma per_class_loop_samples:
  assumes "per_class_loop tts X y trs tes cs (A, B, C, D) = Inr (A', B', C', D')"
    and Xs: "\<And>i. Xs i = map fst (filter snd (zip X (map (\<lambda>v. v = int i) y)))"
    and out: "\<And>i. out i = (case tts trs tes i (count_list y (int i)) of
                               Inr p \<Rightarrow> p | Inl e \<Rightarrow> ([], []))"
  shows "(\<forall>i \<in> set cs.
            select X (map (\<lambda>v. v = int i) y) = Inr (Xs i) \<and>
            length (Xs i) = count_list y (int i) \<and>
            (\<forall>k \<in> set (fst (out i) @ snd (out i)). k < count_list y (int i))) \<and>
         A' = A @ concat (map (\<lambda>i. map (\<lambda>k. Xs i ! k) (fst (out i))) cs) \<and>
         B' = B @ concat (map (\<lambda>i. map (\<lambda>k. Xs i ! k) (snd (out i))) cs)"
  using assms(1)
proof (induction cs arbitrary: A B C D)
  case Nil
  then show ?case by simp
next
  case (Cons i cs)
  let ?yi = "filter (\<lambda>v. v = int i) y"
  from Cons.prems obtain Xi where Xi: "select X (map (\<lambda>v. v = int i) y) = Inr Xi"
    by (auto split: sum.splits)
  from select_value[OF Xi] have Xv: "Xi = Xs i" by (simp add: Xs)
  from select_Inr(2)[OF Xi] have n: "length Xi = count_list y (int i)"
    by (simp add: count_as_filter)
  from Cons.prems Xi obtain tr te where t: "tts trs tes i (length Xi) = Inr (tr, te)"
    by (auto split: sum.splits)
  from Cons.prems Xi t have nex: "\<not> list_ex (\<lambda>k. length Xi \<le> k) (tr @ te)"
    by (auto split: if_splits)
  then have inb: "\<forall>k \<in> set (tr @ te). k < length Xi"
    unfolding list_ex_iff by (meson not_le)
  from Cons.prems Xi t nex have rest:
    "per_class_loop tts X y trs tes cs
       (A @ map (\<lambda>k. Xi ! k) tr, B @ map (\<lambda>k. Xi ! k) te,
        C @ map (\<lambda>k. ?yi ! k) tr, D @ map (\<lambda>k. ?yi ! k) te) = Inr (A', B', C', D')"
    by simp
  from t n have o: "out i = (tr, te)" by (simp add: out)
  have hd: "select X (map (\<lambda>v. v = int i) y) = Inr (Xs i) \<and>
            length (Xs i) = count_list y (int i) \<and>
            (\<forall>k \<in> set (fst (out i) @ snd (out i)). k < count_list y (int i))"
    using Xi inb n unfolding o Xv by simp
  from Cons.IH[OF rest] hd show ?case
    unfolding Xv by (simp add: o)
qed

lemma class_block_segment:
  "map fst (filter (\<lambda>p. snd p = c) (zip xs (replicate (length xs) a))) = (if a = c then xs else [])"
  by (induction xs) auto

lemma class_runs_length:
  "length (concat (map (\<lambda>i. replicate (length (f i)) (int i)) cs)) = length (concat (map f cs))"
  by (induction cs) auto

lemma class_segment:
  "map fst (filter (\<lambda>p. snd p = c)
      (zip (concat (map f [0 ..< m]))
           (concat (map (\<lambda>i. replicate (length (f i)) (int i)) [0 ..< m])))) =
     (if 0 \<le> c \<and> c < int m then f (nat c) else [])"
proof (induction m)
  case 0
  then show ?case by auto
next
  case (Suc m)
  have l: "length (concat (map f [0 ..< m])) =
           length (concat (map (\<lambda>i. replicate (length (f i)) (int i)) [0 ..< m]))"
    by (simp add: class_runs_length)
  show ?case
  proof (cases "c = int m")
    case True
    with Suc show ?thesis by (simp add: l class_block_segment)
  next
    case False
    with Suc show ?thesis by (auto simp: l class_block_segment)
  qed
qed

text \<open>
  C6 (as amended). Whenever \<open>train_test_split_per_class\<close> returns, the
  train and the test labels are each grouped by class in increasing order,
  with one sample for every label. For every class \<open>c\<close> that occurs, the
  train samples returned with label \<open>c\<close> are, in order, the samples of
  \<open>X[y == c]\<close> at the train positions \<open>train_test_split\<close> chose for that
  class, and likewise for the test samples; so the train and test labels
  equal to \<open>c\<close> are together as many as the positions chosen. This is at
  most the number of input labels equal to \<open>c\<close>, and equal to it when every
  choice uses all positions. A label that does not occur in \<open>y\<close> is not
  returned.
\<close>

theorem split_per_class_counts:
  assumes "train_test_split_per_class tts X y train_size test_size =
             Inr (X_train, X_test, y_train, y_test)"
  shows "sorted y_train \<and> sorted y_test \<and>
         length X_train = length y_train \<and> length X_test = length y_test \<and>
         (\<forall>c. c \<in> set y \<longrightarrow>
            (\<exists>Xc tr te.
               select X (map (\<lambda>v. v = c) y) = Inr Xc \<and> length Xc = count_list y c \<and>
               tts train_size test_size (nat c) (count_list y c) = Inr (tr, te) \<and>
               count_list y_train c + count_list y_test c = length tr + length te \<and>
               map fst (filter (\<lambda>p. snd p = c) (zip X_train y_train)) = map (\<lambda>k. Xc ! k) tr \<and>
               map fst (filter (\<lambda>p. snd p = c) (zip X_test y_test)) = map (\<lambda>k. Xc ! k) te)) \<and>
         (\<forall>c. c \<notin> set y \<longrightarrow> c \<notin> set y_train \<and> c \<notin> set y_test) \<and>
         ((\<forall>i n p. tts train_size test_size i n = Inr p \<longrightarrow> is_split n p) \<longrightarrow>
            (\<forall>c. count_list y_train c + count_list y_test c \<le> count_list y c)) \<and>
         ((\<forall>i n p. tts train_size test_size i n = Inr p \<longrightarrow>
              is_split n p \<and> length (fst p) + length (snd p) = n) \<longrightarrow>
            (\<forall>c. count_list y_train c + count_list y_test c = count_list y c))"
proof -
  let ?out = "\<lambda>i. case tts train_size test_size i (count_list y (int i)) of
                    Inr p \<Rightarrow> p | Inl e \<Rightarrow> ([], [])"
  let ?ftr = "\<lambda>i. length (fst (?out i))" and ?fte = "\<lambda>i. length (snd (?out i))"
  from assms obtain counts where bc: "bincount y 0 = Inr counts"
    and loop: "per_class_loop tts X y train_size test_size [0 ..< length counts] ([], [], [], [])
                 = Inr (X_train, X_test, y_train, y_test)"
    by (auto simp: train_test_split_per_class_def split: sum.splits)
  let ?m = "length counts"
  note L = per_class_loop_Inr[OF loop]
  from L have called: "\<forall>i < ?m. \<exists>tr te. tts train_size test_size i (count_list y (int i)) = Inr (tr, te)"
    by simp
  from L have ytr: "y_train = concat (map (\<lambda>i. replicate (?ftr i) (int i)) [0 ..< ?m])"
    and yte: "y_test = concat (map (\<lambda>i. replicate (?fte i) (int i)) [0 ..< ?m])"
    and lens: "length X_train = length y_train" "length X_test = length y_test"
    by simp_all
  have s1: "sorted y_train" unfolding ytr by (rule sorted_class_runs)
  have s2: "sorted y_test" unfolding yte by (rule sorted_class_runs)
  have ctr: "\<And>c. count_list y_train c = (if 0 \<le> c \<and> c < int ?m then ?ftr (nat c) else 0)"
    unfolding ytr by (rule count_class_runs)
  have cte: "\<And>c. count_list y_test c = (if 0 \<le> c \<and> c < int ?m then ?fte (nat c) else 0)"
    unfolding yte by (rule count_class_runs)
  have inrange: "\<And>c. 0 \<le> c \<and> c < int ?m \<Longrightarrow>
      \<exists>tr te. tts train_size test_size (nat c) (count_list y c) = Inr (tr, te) \<and>
         count_list y_train c + count_list y_test c = length tr + length te"
  proof -
    fix c :: int assume c: "0 \<le> c \<and> c < int ?m"
    then have "nat c < ?m" by linarith
    with called obtain tr te where
      "tts train_size test_size (nat c) (count_list y (int (nat c))) = Inr (tr, te)" by blast
    with c have t: "tts train_size test_size (nat c) (count_list y c) = Inr (tr, te)" by simp
    with c have "count_list y_train c + count_list y_test c = length tr + length te"
      by (simp add: ctr cte)
    with t show "\<exists>tr te. tts train_size test_size (nat c) (count_list y c) = Inr (tr, te) \<and>
         count_list y_train c + count_list y_test c = length tr + length te" by blast
  qed
  have outside: "\<And>c. \<not> (0 \<le> c \<and> c < int ?m) \<Longrightarrow>
      count_list y c = 0 \<and> count_list y_train c + count_list y_test c = 0"
  proof -
    fix c :: int assume n: "\<not> (0 \<le> c \<and> c < int ?m)"
    from bincount_absent[OF bc n] have "count_list y c = 0" .
    moreover from n have "count_list y_train c = 0" "count_list y_test c = 0"
      by (auto simp: ctr cte)
    ultimately show "count_list y c = 0 \<and> count_list y_train c + count_list y_test c = 0"
      by simp
  qed
  let ?Xs = "\<lambda>i. map fst (filter snd (zip X (map (\<lambda>v. v = int i) y)))"
  let ?f = "\<lambda>i. map (\<lambda>k. ?Xs i ! k) (fst (?out i))"
  let ?g = "\<lambda>i. map (\<lambda>k. ?Xs i ! k) (snd (?out i))"
  note S = per_class_loop_samples[OF loop, of ?Xs ?out, OF refl refl]
  from S have sel: "\<forall>i < ?m. select X (map (\<lambda>v. v = int i) y) = Inr (?Xs i) \<and>
                      length (?Xs i) = count_list y (int i) \<and>
                      (\<forall>k \<in> set (fst (?out i) @ snd (?out i)). k < count_list y (int i))"
    by simp
  from S have xtr: "X_train = concat (map ?f [0 ..< ?m])"
    and xte: "X_test = concat (map ?g [0 ..< ?m])"
    by simp_all
  have ytr': "y_train = concat (map (\<lambda>i. replicate (length (?f i)) (int i)) [0 ..< ?m])"
    unfolding ytr by simp
  have yte': "y_test = concat (map (\<lambda>i. replicate (length (?g i)) (int i)) [0 ..< ?m])"
    unfolding yte by simp
  have segtr: "\<And>c. map fst (filter (\<lambda>p. snd p = c) (zip X_train y_train)) =
                  (if 0 \<le> c \<and> c < int ?m then ?f (nat c) else [])"
    unfolding xtr ytr' by (rule class_segment)
  have segte: "\<And>c. map fst (filter (\<lambda>p. snd p = c) (zip X_test y_test)) =
                  (if 0 \<le> c \<and> c < int ?m then ?g (nat c) else [])"
    unfolding xte yte' by (rule class_segment)
  have a: "\<forall>c. c \<in> set y \<longrightarrow>
            (\<exists>Xc tr te.
               select X (map (\<lambda>v. v = c) y) = Inr Xc \<and> length Xc = count_list y c \<and>
               tts train_size test_size (nat c) (count_list y c) = Inr (tr, te) \<and>
               count_list y_train c + count_list y_test c = length tr + length te \<and>
               map fst (filter (\<lambda>p. snd p = c) (zip X_train y_train)) = map (\<lambda>k. Xc ! k) tr \<and>
               map fst (filter (\<lambda>p. snd p = c) (zip X_test y_test)) = map (\<lambda>k. Xc ! k) te)"
  proof (intro allI impI)
    fix c assume "c \<in> set y"
    then have "count_list y c \<noteq> 0" by (simp add: count_list_0_iff)
    with outside[of c] have r: "0 \<le> c \<and> c < int ?m" by blast
    then have nc: "nat c < ?m" and ic: "int (nat c) = c" by linarith+
    from inrange[OF r] obtain tr te where
      t: "tts train_size test_size (nat c) (count_list y c) = Inr (tr, te)"
      and e: "count_list y_train c + count_list y_test c = length tr + length te" by blast
    from t ic have o: "?out (nat c) = (tr, te)" by simp
    from sel nc ic have s: "select X (map (\<lambda>v. v = c) y) = Inr (?Xs (nat c))"
      and l: "length (?Xs (nat c)) = count_list y c"
      by auto
    have "map fst (filter (\<lambda>p. snd p = c) (zip X_train y_train)) = map (\<lambda>k. ?Xs (nat c) ! k) tr"
      using r by (simp add: segtr t)
    moreover
    have "map fst (filter (\<lambda>p. snd p = c) (zip X_test y_test)) = map (\<lambda>k. ?Xs (nat c) ! k) te"
      using r by (simp add: segte t)
    ultimately show "\<exists>Xc tr te.
               select X (map (\<lambda>v. v = c) y) = Inr Xc \<and> length Xc = count_list y c \<and>
               tts train_size test_size (nat c) (count_list y c) = Inr (tr, te) \<and>
               count_list y_train c + count_list y_test c = length tr + length te \<and>
               map fst (filter (\<lambda>p. snd p = c) (zip X_train y_train)) = map (\<lambda>k. Xc ! k) tr \<and>
               map fst (filter (\<lambda>p. snd p = c) (zip X_test y_test)) = map (\<lambda>k. Xc ! k) te"
      using s l t e by blast
  qed
  have a': "\<forall>c. c \<notin> set y \<longrightarrow> c \<notin> set y_train \<and> c \<notin> set y_test"
  proof (intro allI impI)
    fix c assume "c \<notin> set y"
    then have z: "count_list y c = 0" by (simp add: count_list_0_iff)
    have "count_list y_train c = 0 \<and> count_list y_test c = 0"
    proof (cases "0 \<le> c \<and> c < int ?m")
      case True
      then obtain i where i: "c = int i" "i < ?m"
        by (metis nat_0_le nat_less_iff)
      from sel i z have "\<forall>k \<in> set (fst (?out i) @ snd (?out i)). k < 0"
        by auto
      then have k0: "\<And>k. k \<in> set (fst (?out i)) \<or> k \<in> set (snd (?out i)) \<Longrightarrow> False"
        by simp
      have e1: "fst (?out i) = []"
      proof (rule ccontr)
        assume "fst (?out i) \<noteq> []"
        then have "hd (fst (?out i)) \<in> set (fst (?out i))" by (rule hd_in_set)
        then show False using k0 by blast
      qed
      have e2: "snd (?out i) = []"
      proof (rule ccontr)
        assume "snd (?out i) \<noteq> []"
        then have "hd (snd (?out i)) \<in> set (snd (?out i))" by (rule hd_in_set)
        then show False using k0 by blast
      qed
      note e = e1 e2
      have "count_list y_train (int i) = 0" "count_list y_test (int i) = 0"
        unfolding ctr cte using i(2) e by simp_all
      with i show ?thesis by simp
    next
      case False
      with outside[of c] show ?thesis by simp
    qed
    then show "c \<notin> set y_train \<and> c \<notin> set y_test"
      by (simp add: count_list_0_iff)
  qed
  have b: "(\<forall>i n p. tts train_size test_size i n = Inr p \<longrightarrow> is_split n p) \<longrightarrow>
            (\<forall>c. count_list y_train c + count_list y_test c \<le> count_list y c)"
  proof (intro allI impI)
    fix c assume h: "\<forall>i n p. tts train_size test_size i n = Inr p \<longrightarrow> is_split n p"
    show "count_list y_train c + count_list y_test c \<le> count_list y c"
    proof (cases "0 \<le> c \<and> c < int ?m")
      case True
      from inrange[OF True] obtain tr te where
        t: "tts train_size test_size (nat c) (count_list y c) = Inr (tr, te)"
        and e: "count_list y_train c + count_list y_test c = length tr + length te" by blast
      from h t have "is_split (count_list y c) (tr, te)" by blast
      from split_size_le[OF this] e show ?thesis by simp
    next
      case False
      with outside[of c] show ?thesis by simp
    qed
  qed
  have c: "(\<forall>i n p. tts train_size test_size i n = Inr p \<longrightarrow>
              is_split n p \<and> length (fst p) + length (snd p) = n) \<longrightarrow>
            (\<forall>c. count_list y_train c + count_list y_test c = count_list y c)"
  proof (intro allI impI)
    fix c assume h: "\<forall>i n p. tts train_size test_size i n = Inr p \<longrightarrow>
              is_split n p \<and> length (fst p) + length (snd p) = n"
    show "count_list y_train c + count_list y_test c = count_list y c"
    proof (cases "0 \<le> c \<and> c < int ?m")
      case True
      from inrange[OF True] obtain tr te where
        t: "tts train_size test_size (nat c) (count_list y c) = Inr (tr, te)"
        and e: "count_list y_train c + count_list y_test c = length tr + length te" by blast
      from h t have "length (fst (tr, te)) + length (snd (tr, te)) = count_list y c" by blast
      with e show ?thesis by simp
    next
      case False
      with outside[of c] show ?thesis by simp
    qed
  qed
  from s1 s2 lens a a' b c show ?thesis by blast
qed

theorem split_per_class_counts_witness:
  "train_test_split_per_class (\<lambda>(trs :: size_arg) (tes :: size_arg) (i :: nat) n. if n < 2 then Inl ValueError else Inr ([1 ..< n], [0])) [10, 11, 12, 13 :: nat] [0, 1, 0, 1] NoSize NoSize =
     Inr ([12, 13], [10, 11], [0, 1], [0, 1]) \<and>
   \<not> (\<exists>i n p. (\<lambda>(trs :: size_arg) (tes :: size_arg) (i :: nat) n. if n < 2 then Inl ValueError else Inr ([1 ..< n], [0])) NoSize NoSize i n = Inr p \<and>
          \<not> (is_split n p \<and> length (fst p) + length (snd p) = n)) \<and>
   (1 :: int) \<in> set [0, 1, 0, 1] \<and>
   sorted [0, 1 :: int] \<and>
   (\<exists>Xc tr te.
      select [10, 11, 12, 13 :: nat] (map (\<lambda>v. v = 1) [0, 1, 0, 1 :: int]) = Inr Xc \<and>
      length Xc = count_list [0, 1, 0, 1 :: int] 1 \<and>
      (\<lambda>(trs :: size_arg) (tes :: size_arg) (i :: nat) n. if n < 2 then Inl ValueError else Inr ([1 ..< n], [0])) NoSize NoSize (nat 1) (count_list [0, 1, 0, 1 :: int] 1) = Inr (tr, te) \<and>
      count_list [0, 1 :: int] 1 + count_list [0, 1 :: int] 1 = length tr + length te \<and>
      map fst (filter (\<lambda>p. snd p = 1) (zip [12, 13 :: nat] [0, 1 :: int])) = map (\<lambda>k. Xc ! k) tr \<and>
      map fst (filter (\<lambda>p. snd p = 1) (zip [10, 11 :: nat] [0, 1 :: int])) = map (\<lambda>k. Xc ! k) te) \<and>
   count_list [0, 1 :: int] 1 + count_list [0, 1 :: int] 1 = count_list [0, 1, 0, 1 :: int] 1"
proof -
  have h1: "train_test_split_per_class (\<lambda>(trs :: size_arg) (tes :: size_arg) (i :: nat) n. if n < 2 then Inl ValueError else Inr ([1 ..< n], [0])) [10, 11, 12, 13 :: nat] [0, 1, 0, 1] NoSize NoSize =
     Inr ([12, 13], [10, 11], [0, 1], [0, 1])"
    by code_simp
  have h2: "\<forall>i n p. (\<lambda>(trs :: size_arg) (tes :: size_arg) (i :: nat) n. if n < 2 then Inl ValueError else Inr ([1 ..< n], [0])) NoSize NoSize i n = Inr p \<longrightarrow>
              is_split n p \<and> length (fst p) + length (snd p) = n"
    by (auto simp: is_split_def list_all_iff)
  then have h2': "\<not> (\<exists>i n p. (\<lambda>(trs :: size_arg) (tes :: size_arg) (i :: nat) n. if n < 2 then Inl ValueError else Inr ([1 ..< n], [0])) NoSize NoSize i n = Inr p \<and>
          \<not> (is_split n p \<and> length (fst p) + length (snd p) = n))"
    by blast
  have h3: "(1 :: int) \<in> set [0, 1, 0, 1]" by simp
  note t = split_per_class_counts[OF h1]
  note c1 = t[THEN conjunct1]
  note c2 = t[THEN conjunct2, THEN conjunct2, THEN conjunct2, THEN conjunct2, THEN conjunct1,
      rule_format, OF h3]
  note c3 = t[THEN conjunct2, THEN conjunct2, THEN conjunct2, THEN conjunct2, THEN conjunct2,
      THEN conjunct2, THEN conjunct2, THEN mp, OF h2, THEN spec, of 1]
  show ?thesis
    by (rule conjI[OF h1 conjI[OF h2' conjI[OF h3 conjI[OF c1 conjI[OF c2 c3]]]]])
qed

text \<open>
  C6 as stated fails when both sizes are given and leave samples out: with
  \<open>train_size = 1\<close> and \<open>test_size = 1\<close>, \<open>train_test_split\<close> chooses one
  train and one test position among the three samples of class 0 (here the
  first position for the test set and the next for the train set), and
  \<open>1 + 1\<close> is not 3.
\<close>

theorem split_per_class_counts_counterexample:
  "is_split 3 ([1], [0]) \<and>
   train_test_split_per_class (\<lambda>trs tes (i :: nat) n. case (trs, tes) of
          (Count a, Count b) \<Rightarrow>
            if 0 < a \<and> 0 < b \<and> a + b \<le> int n
            then Inr ([nat b ..< nat b + nat a], [0 ..< nat b]) else Inl ValueError
        | _ \<Rightarrow> Inl ValueError) [10, 11, 12 :: nat] [0, 0, 0] (Count 1) (Count 1) =
     Inr ([11], [10], [0], [0]) \<and>
   count_list [0 :: int] 0 + count_list [0 :: int] 0 \<noteq> count_list [0, 0, 0 :: int] 0"
  by code_simp

section \<open>Properties of the effects\<close>

lemma loop_times_write:
  "next_ref (loop_times n (np_write r srcs) w) = next_ref w"
  "environ (loop_times n (np_write r srcs) w) = environ w"
  "written (loop_times n (np_write r srcs) w) = replicate n r @ written w"
  by (induction n arbitrary: w; simp add: np_write_def replicate_app_Cons_same)+

lemma loop_times_new_write:
  "next_ref (loop_times n (read_band_fx c r) w) = next_ref w + n"
  "environ (loop_times n (read_band_fx c r) w) = environ w"
  "written (loop_times n (read_band_fx c r) w) =
     replicate n r @ written w"
  by (induction n arbitrary: w;
      simp add: read_band_fx_def np_write_def np_new_def replicate_app_Cons_same)+

lemma scan_fx_frame:
  "next_ref (scan_fx msk p valid marks w) = next_ref w"
  "environ (scan_fx msk p valid marks w) = environ w"
  "written (scan_fx msk p valid marks w) =
     replicate (length (filter (\<lambda>b. b) marks)) valid @ written w"
  by (induction marks arbitrary: w;
      simp add: np_write_def np_read_def Let_def replicate_app_Cons_same)+

lemma per_class_loop_fx_frame:
  assumes "k \<le> next_ref w" "k \<le> a" "k \<le> b" "k \<le> c" "k \<le> d"
  shows "(case per_class_loop_fx X y n (a, b, c, d) w of
            ((a', b', c', d'), w') \<Rightarrow>
              k \<le> a' \<and> k \<le> b' \<and> k \<le> c' \<and> k \<le> d' \<and> next_ref w \<le> next_ref w' \<and>
              written w' = written w \<and> environ w' = environ w)"
  using assms
proof (induction n arbitrary: a b c d w)
  case 0
  then show ?case by simp
next
  case (Suc n)
  obtain w1 where step: "per_class_loop_fx X y (Suc n) (a, b, c, d) w =
      per_class_loop_fx X y n (next_ref w + 8, next_ref w + 9, next_ref w + 10, next_ref w + 11) w1"
    and w1: "next_ref w1 = next_ref w + 12" "written w1 = written w" "environ w1 = environ w"
    by (simp add: np_new_def Let_def eval_nat_numeral)
  from Suc.prems(1) w1 have
    "case per_class_loop_fx X y n (next_ref w + 8, next_ref w + 9, next_ref w + 10, next_ref w + 11) w1 of
       ((a', b', c', d'), w') \<Rightarrow>
         k \<le> a' \<and> k \<le> b' \<and> k \<le> c' \<and> k \<le> d' \<and> next_ref w1 \<le> next_ref w' \<and>
         written w' = written w1 \<and> environ w' = environ w1"
    by (intro Suc.IH) simp_all
  then show ?case unfolding step using w1 by (auto split: prod.splits)
qed

text \<open>
  C9. Every helper but \<open>set_gpu\<close> leaves the environment as it is, writes
  in place only to arrays it allocated itself (the log of writes to the arrays
  that existed before the call, its arguments among them, is unchanged), and
  returns arrays allocated during the call. \<open>set_gpu\<close> allocates, reads and
  writes no array and changes the environment at \<open>CUDA_VISIBLE_DEVICES\<close>
  only.
\<close>

theorem helpers_write_only_new_arrays:
  "(case band_resample_hsi_cube_fx data bands1 bands2 fwhm1 fwhm2 msk w of
      (out, w') \<Rightarrow>
        next_ref w \<le> out \<and> environ w' = environ w \<and>
        filter (\<lambda>r. r < next_ref w) (written w') = filter (\<lambda>r. r < next_ref w) (written w))
   \<and> (case readENVIHeader_fx w of
         ((centers, fwhm), w') \<Rightarrow>
           next_ref w \<le> centers \<and> next_ref w \<le> fwhm \<and> environ w' = environ w \<and>
           filter (\<lambda>r. r < next_ref w) (written w') = filter (\<lambda>r. r < next_ref w) (written w))
   \<and> (case read_hyperion_HSI_data_fx w of
         (cube, w') \<Rightarrow>
           next_ref w \<le> cube \<and> environ w' = environ w \<and>
           filter (\<lambda>r. r < next_ref w) (written w') = filter (\<lambda>r. r < next_ref w) (written w))
   \<and> (case patch_extractor_with_mask_fx data mk marks num_patches w of
         (patch_arr, w') \<Rightarrow>
           next_ref w \<le> patch_arr \<and> environ w' = environ w \<and>
           filter (\<lambda>r. r < next_ref w) (written w') = filter (\<lambda>r. r < next_ref w) (written w))
   \<and> (case patch_extractor_fx data num_patches w of
         (patch_arr, w') \<Rightarrow>
           next_ref w \<le> patch_arr \<and> environ w' = environ w \<and>
           filter (\<lambda>r. r < next_ref w) (written w') = filter (\<lambda>r. r < next_ref w) (written w))
   \<and> (case class_weights_fx labels numClasses_is_None w of
         (weights, w') \<Rightarrow>
           next_ref w \<le> weights \<and> environ w' = environ w \<and>
           filter (\<lambda>r. r < next_ref w) (written w') = filter (\<lambda>r. r < next_ref w) (written w))
   \<and> (case train_test_split_per_class_fx X y num_classes w of
         ((X_train, X_test, y_train, y_test), w') \<Rightarrow>
           next_ref w \<le> X_train \<and> next_ref w \<le> X_test \<and>
           next_ref w \<le> y_train \<and> next_ref w \<le> y_test \<and> environ w' = environ w \<and>
           filter (\<lambda>r. r < next_ref w) (written w') = filter (\<lambda>r. r < next_ref w) (written w))
   \<and> next_ref (set_gpu device w) = next_ref w
   \<and> accessed (set_gpu device w) = accessed w
   \<and> written (set_gpu device w) = written w
   \<and> environ (set_gpu device w) ''CUDA_VISIBLE_DEVICES'' =
        Some (case device of None \<Rightarrow> [] | Some d \<Rightarrow> d)
   \<and> (environ (set_gpu device w))(''CUDA_VISIBLE_DEVICES'' := None) =
        (environ w)(''CUDA_VISIBLE_DEVICES'' := None)"
proof (intro conjI)
  show "case band_resample_hsi_cube_fx data bands1 bands2 fwhm1 fwhm2 msk w of
      (out, w') \<Rightarrow>
        next_ref w \<le> out \<and> environ w' = environ w \<and>
        filter (\<lambda>r. r < next_ref w) (written w') = filter (\<lambda>r. r < next_ref w) (written w)"
    by (cases msk) (simp_all add: band_resample_hsi_cube_fx_def np_new_def np_write_def np_view_def)
  show "case readENVIHeader_fx w of
         ((centers, fwhm), w') \<Rightarrow>
           next_ref w \<le> centers \<and> next_ref w \<le> fwhm \<and> environ w' = environ w \<and>
           filter (\<lambda>r. r < next_ref w) (written w') = filter (\<lambda>r. r < next_ref w) (written w)"
    by (simp add: readENVIHeader_fx_def np_new_def)
  show "case read_hyperion_HSI_data_fx w of
         (cube, w') \<Rightarrow>
           next_ref w \<le> cube \<and> environ w' = environ w \<and>
           filter (\<lambda>r. r < next_ref w) (written w') = filter (\<lambda>r. r < next_ref w) (written w)"
    by (simp add: read_hyperion_HSI_data_fx_def split_def Let_def np_new_def np_write_def
          loop_times_new_write)
  show "case patch_extractor_with_mask_fx data mk marks num_patches w of
         (patch_arr, w') \<Rightarrow>
           next_ref w \<le> patch_arr \<and> environ w' = environ w \<and>
           filter (\<lambda>r. r < next_ref w) (written w') = filter (\<lambda>r. r < next_ref w) (written w)"
    by (simp add: patch_extractor_with_mask_fx_def split_def Let_def np_new_def
          loop_times_write scan_fx_frame)
  show "case patch_extractor_fx data num_patches w of
         (patch_arr, w') \<Rightarrow>
           next_ref w \<le> patch_arr \<and> environ w' = environ w \<and>
           filter (\<lambda>r. r < next_ref w) (written w') = filter (\<lambda>r. r < next_ref w) (written w)"
    by (simp add: patch_extractor_fx_def split_def Let_def np_new_def loop_times_write)
       (simp add: np_write_def)
  show "case class_weights_fx labels numClasses_is_None w of
         (weights, w') \<Rightarrow>
           next_ref w \<le> weights \<and> environ w' = environ w \<and>
           filter (\<lambda>r. r < next_ref w) (written w') = filter (\<lambda>r. r < next_ref w) (written w)"
    by (simp add: class_weights_fx_def np_new_def np_write_def np_read_def)
  show "case train_test_split_per_class_fx X y num_classes w of
         ((X_train, X_test, y_train, y_test), w') \<Rightarrow>
           next_ref w \<le> X_train \<and> next_ref w \<le> X_test \<and>
           next_ref w \<le> y_train \<and> next_ref w \<le> y_test \<and> environ w' = environ w \<and>
           filter (\<lambda>r. r < next_ref w) (written w') = filter (\<lambda>r. r < next_ref w) (written w)"
  proof -
    obtain w1 where e: "train_test_split_per_class_fx X y num_classes w =
        per_class_loop_fx X y num_classes
          (next_ref w + 2, next_ref w + 3, next_ref w + 4, next_ref w + 5) w1"
      and w1: "next_ref w1 = next_ref w + 6" "written w1 = next_ref w # written w"
        "environ w1 = environ w"
      by (simp add: train_test_split_per_class_fx_def np_new_def np_write_def eval_nat_numeral)
    from w1 have "case per_class_loop_fx X y num_classes
                 (next_ref w + 2, next_ref w + 3, next_ref w + 4, next_ref w + 5) w1 of
            ((a', b', c', d'), w') \<Rightarrow>
              next_ref w \<le> a' \<and> next_ref w \<le> b' \<and> next_ref w \<le> c' \<and> next_ref w \<le> d' \<and>
              next_ref w1 \<le> next_ref w' \<and> written w' = written w1 \<and> environ w' = environ w1"
      by (intro per_class_loop_fx_frame) simp_all
    then show ?thesis unfolding e using w1 by (auto split: prod.splits)
  qed
qed (simp_all add: set_gpu_def)

end
